theory Spec2Isabelle
  imports Complex_Main
begin

section \<open>The round simulation engine of the federated-learning defence simulator\<close>

text \<open>
  The engine is the state updater \<^verbatim>\<open>runRound\<close> of \<^verbatim>\<open>src/index.tsx\<close> together with
  its helpers \<^verbatim>\<open>randomNormal\<close>, \<^verbatim>\<open>generateGradient\<close>, \<^verbatim>\<open>dot\<close> and \<^verbatim>\<open>mag\<close>.

  Conventions of the embedding:
  \<^item> a JavaScript \<^verbatim>\<open>number\<close> is a \<^typ>\<open>real\<close>: the arithmetic is the exact arithmetic of
    the expressions the source writes, not their IEEE-754 rounding; counters and indices
    are \<^typ>\<open>nat\<close>. The bounds on the accuracy and the attack success rate depend on
    the rounding, so the metrics update is embedded a second time, with every literal and
    every operation rounded to binary64 (\<open>metrics64\<close>);
  \<^item> an array is a list and an indexed read \<^verbatim>\<open>a[i]\<close> is \<open>a ! i\<close>. The reads of a round
    are in range when the importance vector of the previous state and the true direction
    have \<open>VECTOR_DIM\<close> coordinates, as they have in every state the engine reaches; the
    theorems about the detection mechanisms and the importance vector assume these
    lengths;
  \<^item> \<^verbatim>\<open>Math.random()\<close> is the ambient source of the JavaScript engine; the source has no
    seed. The values it returns during one call of \<^verbatim>\<open>runRound\<close>, numbers of the interval
    from 0 to 1 without 1, are an input of the model: a sequence \<open>rnd\<close> and the position of
    the next value, threaded through the calls;
  \<^item> a loop that may run forever returns \<open>None\<close> when it does.
\<close>

subsection \<open>Types and constants\<close>

text \<open>The fields \<^verbatim>\<open>id\<close> and \<^verbatim>\<open>type\<close> of a client, \<^verbatim>\<open>round\<close> of the state and
  \<^verbatim>\<open>round\<close>, \<^verbatim>\<open>acc\<close>, \<^verbatim>\<open>asr\<close> of a history entry carry a suffix here, since the plain
  names are taken in HOL.\<close>

datatype ClientType = benign | malicious

record Client =
  id_client :: nat
  type_client :: ClientType
  gradient :: "real list"
  dataDistribution :: real
  stiffnessViolationScore :: real
  isAccepted :: bool

record HistoryEntry =
  round_h :: nat
  acc_h :: real
  asr_h :: real

record SimulationState =
  round_st :: nat
  globalAccuracy :: real
  backdoorSuccessRate :: real
  globalFIM :: "real list"
  clients :: "Client list"
  history :: "HistoryEntry list"

text \<open>The configuration the closure of \<^verbatim>\<open>runRound\<close> reads: the three defence toggles and
  the two environment sliders.\<close>

record Config =
  useMomentumFIM :: bool
  useStiffnessMask :: bool
  useLayerWeightedClustering :: bool
  nonIIDLevel :: real
  attackStealth :: real

definition VECTOR_DIM :: nat where
  "VECTOR_DIM = 20"

definition NUM_CLIENTS :: nat where
  "NUM_CLIENTS = 20"

definition MALICIOUS_RATIO :: real where
  "MALICIOUS_RATIO = 0.2"

type_synonym rng = "nat \<Rightarrow> real"

subsection \<open>Array helpers\<close>

text \<open>\<^verbatim>\<open>Array.from({length: n}, (_, i) => f(i))\<close> with a callback that draws random numbers:
  the callback runs for \<open>i = 0, 1, ...\<close> in order, each call starting at the position of
  the random source where the previous one stopped.\<close>

fun arrayFrom :: "(nat \<Rightarrow> nat \<Rightarrow> ('a \<times> nat) option) \<Rightarrow> nat list \<Rightarrow> nat \<Rightarrow> ('a list \<times> nat) option" where
  "arrayFrom f [] p = Some ([], p)"
| "arrayFrom f (i # is) p =
     (case f i p of
        None \<Rightarrow> None
      | Some (x, p1) \<Rightarrow>
          (case arrayFrom f is p1 of
             None \<Rightarrow> None
           | Some (xs, p2) \<Rightarrow> Some (x # xs, p2)))"

text \<open>\<^verbatim>\<open>a.map((v, i) => f(v, i))\<close> and \<^verbatim>\<open>a.reduce((acc, v, i) => f(acc, v, i), init)\<close>.\<close>

definition mapIdx :: "('a \<Rightarrow> nat \<Rightarrow> 'b) \<Rightarrow> 'a list \<Rightarrow> 'b list" where
  "mapIdx f xs = map (\<lambda>(v, i). f v i) (zip xs [0..<length xs])"

definition reduceIdx :: "('b \<Rightarrow> 'a \<Rightarrow> nat \<Rightarrow> 'b) \<Rightarrow> 'b \<Rightarrow> 'a list \<Rightarrow> 'b" where
  "reduceIdx f init xs = foldl (\<lambda>a (v, i). f a v i) init (zip xs [0..<length xs])"

text \<open>\<^verbatim>\<open>a.slice(-n)\<close>: the last \<open>n\<close> elements, all of them when there are fewer.\<close>

definition sliceLast :: "nat \<Rightarrow> 'a list \<Rightarrow> 'a list" where
  "sliceLast n xs = drop (length xs - n) xs"

subsection \<open>Helper math functions\<close>

text \<open>\<^verbatim>\<open>while (u === 0) u = Math.random();\<close> starting from \<open>u = 0\<close>: draw until a value
  is not zero. The loop does not end when the source returns zero forever.\<close>

partial_function (option) drawNonzero :: "rng \<Rightarrow> nat \<Rightarrow> (real \<times> nat) option" where
  "drawNonzero rnd p = (if rnd p = 0 then drawNonzero rnd (Suc p) else Some (rnd p, Suc p))"

definition randomNormal :: "rng \<Rightarrow> nat \<Rightarrow> (real \<times> nat) option" where
  "randomNormal rnd p =
     (case drawNonzero rnd p of
        None \<Rightarrow> None
      | Some (u, p1) \<Rightarrow>
          (case drawNonzero rnd p1 of
             None \<Rightarrow> None
           | Some (v, p2) \<Rightarrow> Some (sqrt (- 2.0 * ln u) * cos (2.0 * pi * v), p2)))"

text \<open>The callback of \<^verbatim>\<open>generateGradient\<close>, for coordinate \<open>i\<close>.\<close>

definition gradientCoord ::
  "ClientType \<Rightarrow> real \<Rightarrow> real \<Rightarrow> real \<Rightarrow> real list \<Rightarrow> rng \<Rightarrow> nat \<Rightarrow> nat \<Rightarrow> (real \<times> nat) option" where
  "gradientCoord type distribution nonIID attackStrength globalModelDirection rnd i p =
     (case randomNormal rnd p of
        None \<Rightarrow> None
      | Some (n1, p1) \<Rightarrow>
          (let val0 = globalModelDirection ! i;
               noise = n1 * nonIID * 2;
               bias = sin (distribution * pi * 2 + real i) * nonIID;
               val1 = val0 + (noise + bias)
           in if type = malicious then
                (if i < 5 then Some (val1 - attackStrength * 5, p1)
                 else (case randomNormal rnd p1 of
                         None \<Rightarrow> None
                       | Some (n2, p2) \<Rightarrow> Some (val1 + n2 * 0.5, p2)))
              else Some (val1, p1)))"

definition generateGradient ::
  "ClientType \<Rightarrow> real \<Rightarrow> real \<Rightarrow> real \<Rightarrow> real list \<Rightarrow> rng \<Rightarrow> nat \<Rightarrow> (real list \<times> nat) option" where
  "generateGradient type distribution nonIID attackStrength globalModelDirection rnd p =
     arrayFrom (gradientCoord type distribution nonIID attackStrength globalModelDirection rnd)
       [0..<VECTOR_DIM] p"

definition dot :: "real list \<Rightarrow> real list \<Rightarrow> real" where
  "dot a b = reduceIdx (\<lambda>sum v i. sum + v * (b ! i)) 0 a"

definition mag :: "real list \<Rightarrow> real" where
  "mag a = sqrt (foldl (\<lambda>sum v. sum + v * v) 0 a)"

subsection \<open>The round transition\<close>

definition initialState :: SimulationState where
  "initialState =
     \<lparr> round_st = 0, globalAccuracy = 0.1, backdoorSuccessRate = 0,
       globalFIM = replicate VECTOR_DIM 1, clients = [], history = [] \<rparr>"

text \<open>\<^verbatim>\<open>handleReset\<close> replaces the state by the initial one.\<close>

definition handleReset :: "SimulationState \<Rightarrow> SimulationState" where
  "handleReset s = initialState"

text \<open>Step 1: the callback that builds client \<open>i\<close>, and the list of new clients.\<close>

definition newClient :: "Config \<Rightarrow> real list \<Rightarrow> rng \<Rightarrow> nat \<Rightarrow> nat \<Rightarrow> (Client \<times> nat) option" where
  "newClient cfg trueGradient rnd i p =
     (let type = (if real i < real NUM_CLIENTS * MALICIOUS_RATIO then malicious else benign);
          distribution = (if type = malicious then 0.9 else real i / real NUM_CLIENTS);
          strength = 1.5 - attackStealth cfg
      in case generateGradient type distribution (nonIIDLevel cfg) strength trueGradient rnd p of
           None \<Rightarrow> None
         | Some (g, p1) \<Rightarrow>
             Some (\<lparr> id_client = i, type_client = type, gradient = g,
                     dataDistribution = distribution, stiffnessViolationScore = 0,
                     isAccepted = True \<rparr>, p1))"

definition newClients :: "Config \<Rightarrow> real list \<Rightarrow> rng \<Rightarrow> nat \<Rightarrow> (Client list \<times> nat) option" where
  "newClients cfg trueGradient rnd p =
     arrayFrom (newClient cfg trueGradient rnd) [0..<NUM_CLIENTS] p"

text \<open>Step 2: the momentum update of the importance vector.\<close>

definition idealFIM :: "real list" where
  "idealFIM = map (\<lambda>i. if i < 5 then 10.0 else 1.0) [0..<VECTOR_DIM]"

definition updateFIM :: "Config \<Rightarrow> real list \<Rightarrow> real list" where
  "updateFIM cfg prevFIM =
     (if useMomentumFIM cfg then mapIdx (\<lambda>f i. 0.9 * f + 0.1 * (idealFIM ! i)) prevFIM
      else prevFIM)"

text \<open>Mechanism A. The pair is the callback's local state
  \<open>(isMaliciousDetected, stiffnessScore)\<close>.\<close>

definition stiffnessSum :: "real list \<Rightarrow> real list \<Rightarrow> real" where
  "stiffnessSum currentFIM g = reduceIdx (\<lambda>a v idx. a + (currentFIM ! idx) * \<bar>v\<bar>) 0 g"

definition mechanismA :: "Config \<Rightarrow> real list \<Rightarrow> real list \<Rightarrow> bool \<times> real \<Rightarrow> bool \<times> real" where
  "mechanismA cfg currentFIM g st =
     (if useStiffnessMask cfg then
        (let stiffnessScore = stiffnessSum currentFIM g / real VECTOR_DIM;
             threshold = (if useMomentumFIM cfg then 12 else 15) * (1 + nonIIDLevel cfg)
         in (if stiffnessScore > threshold then True else fst st, stiffnessScore))
      else st)"

text \<open>Mechanism B: the \<^verbatim>\<open>for\<close> loop over \<open>i = 0 .. VECTOR_DIM - 1\<close> that accumulates \<open>dist\<close>.\<close>

definition weightedDist :: "Config \<Rightarrow> real list \<Rightarrow> real list \<Rightarrow> real list \<Rightarrow> real" where
  "weightedDist cfg currentFIM trueGradient g =
     foldl (\<lambda>dist i.
        (let weight = (if useLayerWeightedClustering cfg then currentFIM ! i else 1);
             diff = g ! i - trueGradient ! i
         in dist + weight * (diff * diff))) 0 [0..<VECTOR_DIM]"

definition mechanismB :: "Config \<Rightarrow> real list \<Rightarrow> real list \<Rightarrow> real list \<Rightarrow> bool \<Rightarrow> bool" where
  "mechanismB cfg currentFIM trueGradient g isMaliciousDetected =
     (if useLayerWeightedClustering cfg \<and> \<not> isMaliciousDetected then
        (if weightedDist cfg currentFIM trueGradient g > 500 * (1 + nonIIDLevel cfg) then True
         else isMaliciousDetected)
      else isMaliciousDetected)"

text \<open>The control-group check.\<close>

definition fallbackCheck :: "Config \<Rightarrow> real list \<Rightarrow> bool \<Rightarrow> bool" where
  "fallbackCheck cfg g isMaliciousDetected =
     (if \<not> useStiffnessMask cfg \<and> \<not> useLayerWeightedClustering cfg then
        (if mag g > 25 then True else isMaliciousDetected)
      else isMaliciousDetected)"

text \<open>The callback of \<^verbatim>\<open>newClients.map\<close>.\<close>

definition processClient :: "Config \<Rightarrow> real list \<Rightarrow> real list \<Rightarrow> Client \<Rightarrow> Client" where
  "processClient cfg currentFIM trueGradient client =
     (let stA = mechanismA cfg currentFIM (gradient client) (False, 0);
          detB = mechanismB cfg currentFIM trueGradient (gradient client) (fst stA);
          detC = fallbackCheck cfg (gradient client) detB
      in client\<lparr> stiffnessViolationScore := snd stA, isAccepted := \<not> detC \<rparr>)"

text \<open>Step 3: the \<^verbatim>\<open>forEach\<close> that counts \<open>(acceptedCount, maliciousAccepted)\<close>.\<close>

definition countAccepted :: "Client list \<Rightarrow> nat \<times> nat" where
  "countAccepted cs =
     foldl (\<lambda>(acceptedCount, maliciousAccepted) c.
        if isAccepted c then
          (acceptedCount + 1,
           if type_client c = malicious then maliciousAccepted + 1 else maliciousAccepted)
        else (acceptedCount, maliciousAccepted)) (0, 0) cs"

text \<open>Everything of \<^verbatim>\<open>runRound\<close> after the clients are generated.\<close>

definition finishRound :: "Config \<Rightarrow> real list \<Rightarrow> SimulationState \<Rightarrow> Client list \<Rightarrow> SimulationState" where
  "finishRound cfg trueGradient prev ncs =
     (let newRound = round_st prev + 1;
          currentFIM = updateFIM cfg (globalFIM prev);
          processedClients = map (processClient cfg currentFIM trueGradient) ncs;
          (acceptedCount, maliciousAccepted) = countAccepted processedClients;
          attackImpact = real maliciousAccepted / real (if acceptedCount = 0 then 1 else acceptedCount);
          targetAcc = 0.95 - attackImpact * 0.5;
          newAcc = globalAccuracy prev * 0.8 + targetAcc * 0.2;
          targetASR = (if attackImpact > 0.1 then 0.9 else 0.0);
          newASR = backdoorSuccessRate prev * 0.8 + targetASR * 0.2;
          newHistory = sliceLast 50
            (history prev @ [\<lparr> round_h = newRound, acc_h = newAcc, asr_h = newASR \<rparr>])
      in prev\<lparr> round_st := newRound, clients := processedClients, globalAccuracy := newAcc,
               backdoorSuccessRate := newASR, globalFIM := currentFIM, history := newHistory \<rparr>)"

definition runRound :: "Config \<Rightarrow> real list \<Rightarrow> rng \<Rightarrow> SimulationState \<Rightarrow> SimulationState option" where
  "runRound cfg trueGradient rnd prev =
     (case newClients cfg trueGradient rnd 0 of
        None \<Rightarrow> None
      | Some (ncs, p) \<Rightarrow> Some (finishRound cfg trueGradient prev ncs))"

subsection \<open>Runs of the engine\<close>

text \<open>The interval timer calls \<^verbatim>\<open>runRound\<close> again and again; between two calls the user may
  change every toggle and slider. A run is given by the configuration and the random
  values of each round; its result is the list of the states after each round.\<close>

fun runRounds :: "real list \<Rightarrow> (Config \<times> rng) list \<Rightarrow> SimulationState \<Rightarrow> SimulationState list option" where
  "runRounds trueGradient [] s = Some []"
| "runRounds trueGradient ((cfg, rnd) # rest) s =
     (case runRound cfg trueGradient rnd s of
        None \<Rightarrow> None
      | Some s' \<Rightarrow>
          (case runRounds trueGradient rest s' of
             None \<Rightarrow> None
           | Some ss \<Rightarrow> Some (s' # ss)))"

inductive reachable :: "real list \<Rightarrow> SimulationState \<Rightarrow> bool" for trueGradient :: "real list" where
  reach_init: "reachable trueGradient initialState"
| reach_round: "reachable trueGradient s \<Longrightarrow> runRound cfg trueGradient rnd s = Some s'
     \<Longrightarrow> reachable trueGradient s'"

subsection \<open>Sample inputs\<close>

text \<open>The configuration the application starts with (the initial values of its
  \<^verbatim>\<open>useState\<close> hooks), a true gradient direction, and a random source that returns
  the same value at every call.\<close>

definition defaultConfig :: Config where
  "defaultConfig =
     \<lparr> useMomentumFIM = True, useStiffnessMask = True, useLayerWeightedClustering = True,
       nonIIDLevel = 0.5, attackStealth = 0.6 \<rparr>"

definition sampleTrueGradient :: "real list" where
  "sampleTrueGradient = replicate VECTOR_DIM 0"

definition constRandom :: "real \<Rightarrow> rng" where
  "constRandom c = (\<lambda>n. c)"

text \<open>Three configurations with the non-IID slider at 0: the defaults otherwise; the
  stealth slider at 0 as well; both detection mechanisms switched off.\<close>

definition iidConfig :: Config where
  "iidConfig = defaultConfig\<lparr> nonIIDLevel := 0 \<rparr>"

definition loudConfig :: Config where
  "loudConfig = iidConfig\<lparr> attackStealth := 0 \<rparr>"

definition undefendedConfig :: Config where
  "undefendedConfig = iidConfig\<lparr> useStiffnessMask := False, useLayerWeightedClustering := False \<rparr>"

text \<open>The states that the first round leads to under these configurations, when the true
  direction is \<open>sampleTrueGradient\<close> and every draw is 1/4 (lemmas \<open>sample_round\<close>,
  \<open>loud_round\<close> and \<open>undefended_round\<close> below). The four malicious clients have the value
  \<open>v\<close> at the coordinates 0 to 4, the score \<open>sc\<close> and the verdict \<open>ok\<close>; the benign
  clients have the zero gradient, the score 0 and are accepted.\<close>

definition sampleClients :: "real \<Rightarrow> real \<Rightarrow> bool \<Rightarrow> Client list" where
  "sampleClients v sc ok =
     map (\<lambda>i. \<lparr> id_client = i,
                type_client = (if i < 4 then malicious else benign),
                gradient = (if i < 4 then replicate 5 v @ replicate 15 0 else replicate 20 0),
                dataDistribution = (if i < 4 then 0.9 else real i / 20),
                stiffnessViolationScore = (if i < 4 then sc else 0),
                isAccepted = (if i < 4 then ok else True) \<rparr>) [0..<20]"

definition sampleState :: SimulationState where
  "sampleState =
     \<lparr> round_st = 1, globalAccuracy = 0.25, backdoorSuccessRate = 0.18,
       globalFIM = replicate 5 1.9 @ replicate 15 1,
       clients = sampleClients (- 4.5) 2.1375 True,
       history = [\<lparr> round_h = 1, acc_h = 0.25, asr_h = 0.18 \<rparr>] \<rparr>"

definition loudState :: SimulationState where
  "loudState =
     \<lparr> round_st = 1, globalAccuracy = 0.27, backdoorSuccessRate = 0,
       globalFIM = replicate 5 1.9 @ replicate 15 1,
       clients = sampleClients (- 7.5) 3.5625 False,
       history = [\<lparr> round_h = 1, acc_h = 0.27, asr_h = 0 \<rparr>] \<rparr>"

definition undefendedState :: SimulationState where
  "undefendedState =
     \<lparr> round_st = 1, globalAccuracy = 0.25, backdoorSuccessRate = 0.18,
       globalFIM = replicate 5 1.9 @ replicate 15 1,
       clients = sampleClients (- 4.5) 0 True,
       history = [\<lparr> round_h = 1, acc_h = 0.25, asr_h = 0.18 \<rparr>] \<rparr>"

text \<open>The history entry \<open>{round, acc, asr}\<close> that a round with result \<open>s\<close> appends.\<close>

definition entryOf :: "SimulationState \<Rightarrow> HistoryEntry" where
  "entryOf s = \<lparr> round_h = round_st s, acc_h = globalAccuracy s, asr_h = backdoorSuccessRate s \<rparr>"

subsection \<open>The metrics update in binary64 arithmetic\<close>

text \<open>The claims about the exact values that the accuracy and the attack success rate can
  reach depend on the rounding of the JavaScript numbers. For the metrics update (the lines
  from \<^verbatim>\<open>attackImpact\<close> to \<^verbatim>\<open>newASR\<close> of \<^verbatim>\<open>runRound\<close>) this second embedding keeps the
  rounding: a number is a real that binary64 represents, and every operation and every
  decimal literal is rounded to the nearest such number, ties to even. Overflow does not
  occur: all values stay between 0 and 1.

  \<open>roundHalfEven\<close> rounds to the nearest integer, ties to the even one. \<open>expo64 x\<close> is the
  exponent of the binade of \<open>x\<close>, not below that of the subnormal numbers, and
  \<open>round64 x\<close> is the multiple of \<open>2 ^ (expo64 x - 52)\<close> nearest to \<open>x\<close>.\<close>

definition roundHalfEven :: "real \<Rightarrow> int" where
  "roundHalfEven x =
     (let f = \<lfloor>x\<rfloor>; d = x - of_int f
      in if d < 1/2 then f else if 1/2 < d then f + 1 else if even f then f else f + 1)"

definition pow2 :: "int \<Rightarrow> real" where
  "pow2 e = (if 0 \<le> e then 2 ^ nat e else 1 / 2 ^ nat (- e))"

definition expo64 :: "real \<Rightarrow> int" where
  "expo64 x = max \<lfloor>log 2 \<bar>x\<bar>\<rfloor> (- 1022)"

definition round64 :: "real \<Rightarrow> real" where
  "round64 x =
     (if x = 0 then 0
      else of_int (roundHalfEven (x / pow2 (expo64 x - 52))) * pow2 (expo64 x - 52))"

definition mul64 :: "real \<Rightarrow> real \<Rightarrow> real" where
  "mul64 a b = round64 (a * b)"

definition add64 :: "real \<Rightarrow> real \<Rightarrow> real" where
  "add64 a b = round64 (a + b)"

definition sub64 :: "real \<Rightarrow> real \<Rightarrow> real" where
  "sub64 a b = round64 (a - b)"

definition div64 :: "real \<Rightarrow> real \<Rightarrow> real" where
  "div64 a b = round64 (a / b)"

text \<open>The metrics update, from the previous pair (accuracy, attack success rate) and the
  two counters of the \<^verbatim>\<open>forEach\<close>.\<close>

definition metrics64 :: "real \<times> real \<Rightarrow> nat \<times> nat \<Rightarrow> real \<times> real" where
  "metrics64 prev counts =
     (let (prevAccuracy, prevASR) = prev;
          (acceptedCount, maliciousAccepted) = counts;
          attackImpact = div64 (real maliciousAccepted)
                           (real (if acceptedCount = 0 then 1 else acceptedCount));
          targetAcc = sub64 (round64 0.95) (mul64 attackImpact (round64 0.5));
          newAcc = add64 (mul64 prevAccuracy (round64 0.8)) (mul64 targetAcc (round64 0.2));
          targetASR = (if attackImpact > round64 0.1 then round64 0.9 else round64 0.0);
          newASR = add64 (mul64 prevASR (round64 0.8)) (mul64 targetASR (round64 0.2))
      in (newAcc, newASR))"

text \<open>The pairs of metrics that the engine reaches: it starts from \<open>(0.1, 0)\<close>, and the
  counters of a round satisfy \<open>maliciousAccepted \<le> acceptedCount \<le> NUM_CLIENTS\<close>.\<close>

inductive reachable64 :: "real \<times> real \<Rightarrow> bool" where
  reach64_init: "reachable64 (round64 0.1, 0)"
| reach64_round: "reachable64 ms \<Longrightarrow> maliciousAccepted \<le> acceptedCount
     \<Longrightarrow> acceptedCount \<le> NUM_CLIENTS
     \<Longrightarrow> reachable64 (metrics64 ms (acceptedCount, maliciousAccepted))"

text \<open>The metrics after \<open>n\<close> rounds in each of which all 20 clients, 4 of them malicious,
  are accepted, as in every round of \<open>undefendedConfig\<close> (lemma \<open>undefended_counts\<close>).\<close>

definition undefendedMetrics64 :: "nat \<Rightarrow> real \<times> real" where
  "undefendedMetrics64 n = ((\<lambda>ms. metrics64 ms (20, 4)) ^^ n) (round64 0.1, 0)"

text \<open>The update of the attack success rate in a round whose target is 0.9.\<close>

definition asrUp64 :: "real \<Rightarrow> real" where
  "asrUp64 prevASR = add64 (mul64 prevASR (round64 0.8)) (mul64 (round64 0.9) (round64 0.2))"

section \<open>Lemmas about the embedding\<close>

subsection \<open>Indexed maps, folds and the array constructor\<close>

lemma zip_upt_nth: "zip xs [0..<length xs] = map (\<lambda>i. (xs ! i, i)) [0..<length xs]"
  by (rule nth_equalityI) simp_all

lemma foldl_upt_sum:
  fixes a0 :: real
  shows "foldl (\<lambda>a i. a + f i) a0 [0..<n] = a0 + (\<Sum>i<n. f i)"
  by (induction n) simp_all

lemma reduceIdx_sum:
  fixes a0 :: real
  shows "reduceIdx (\<lambda>a v i. a + h v i) a0 xs = a0 + (\<Sum>i<length xs. h (xs ! i) i)"
proof -
  have "reduceIdx (\<lambda>a v i. a + h v i) a0 xs
      = foldl (\<lambda>a i. a + h (xs ! i) i) a0 [0..<length xs]"
    by (simp add: reduceIdx_def zip_upt_nth foldl_map)
  then show ?thesis by (simp add: foldl_upt_sum)
qed

lemma foldl_squares:
  fixes a0 :: real
  shows "foldl (\<lambda>sum v. sum + v * v) a0 xs = a0 + (\<Sum>i<length xs. (xs ! i)\<^sup>2)"
proof (induction xs arbitrary: a0 rule: rev_induct)
  case Nil
  then show ?case by simp
next
  case (snoc x xs)
  have "(\<Sum>i<length xs. ((xs @ [x]) ! i)\<^sup>2) = (\<Sum>i<length xs. (xs ! i)\<^sup>2)"
    by (rule sum.cong) (simp_all add: nth_append)
  with snoc show ?case by (simp add: power2_eq_square)
qed

lemma length_mapIdx: "length (mapIdx f xs) = length xs"
  by (simp add: mapIdx_def)

lemma nth_mapIdx: "i < length xs \<Longrightarrow> mapIdx f xs ! i = f (xs ! i) i"
  by (simp add: mapIdx_def)

lemma arrayFrom_length: "arrayFrom f js p = Some (xs, q) \<Longrightarrow> length xs = length js"
  by (induction js arbitrary: p xs q) (auto split: option.splits prod.splits)

lemma arrayFrom_nth:
  "arrayFrom f js p = Some (xs, q) \<Longrightarrow> k < length js
     \<Longrightarrow> \<exists>p1 p2. f (js ! k) p1 = Some (xs ! k, p2)"
proof (induction js arbitrary: p xs q k)
  case Nil
  then show ?case by simp
next
  case (Cons j js)
  from Cons.prems(1) obtain x p1 ys where
    h: "f j p = Some (x, p1)" and t: "arrayFrom f js p1 = Some (ys, q)" and xs: "xs = x # ys"
    by (auto split: option.splits prod.splits)
  show ?case
  proof (cases k)
    case 0
    with h xs show ?thesis by auto
  next
    case (Suc k')
    with Cons.prems(2) have "k' < length js" by simp
    from Cons.IH [OF t this] Suc xs show ?thesis by simp
  qed
qed

lemma arrayFrom_hd:
  "arrayFrom f (j # js) p = Some (xs, q) \<Longrightarrow> \<exists>p1. f j p = Some (hd xs, p1)"
  by (auto split: option.splits prod.splits)

lemma arrayFrom_total:
  assumes "\<And>i p. \<exists>r. f i p = Some r"
  shows "\<exists>r. arrayFrom f js p = Some r"
proof (induction js arbitrary: p)
  case Nil
  then show ?case by simp
next
  case (Cons j js)
  from assms obtain x p1 where h: "f j p = Some (x, p1)" by (metis surj_pair)
  from Cons.IH obtain ys q where "arrayFrom f js p1 = Some (ys, q)" by (metis surj_pair)
  with h show ?case by simp
qed

lemma arrayFrom_det:
  assumes "\<And>i p. f i p = Some (g i, p + d i)"
  shows "arrayFrom f js p = Some (map g js, p + sum_list (map d js))"
  by (induction js arbitrary: p) (simp_all add: assms add.assoc)

lemma length_sliceLast: "length (sliceLast n xs) = min (length xs) n"
  by (simp add: sliceLast_def)

lemma sliceLast_append_sliceLast: "sliceLast n (sliceLast n xs @ ys) = sliceLast n (xs @ ys)"
  by (cases "length xs \<le> n") (simp_all add: sliceLast_def add.commute)

lemma sliceLast_snoc:
  "length xs \<le> n \<Longrightarrow> 0 < n \<Longrightarrow>
     sliceLast n (xs @ [e]) = (if length xs < n then xs else tl xs) @ [e]"
  by (cases xs) (auto simp: sliceLast_def Suc_diff_le)

lemma map_sliceLast: "map f (sliceLast n xs) = sliceLast n (map f xs)"
  by (simp add: sliceLast_def drop_map)

lemma upt_20: "[0..<20] = [0, 1, 2, 3, 4, 5, 6, 7, 8, 9, 10, 11, 12, 13, 14, 15, 16, 17, 18, 19 :: nat]"
  by code_simp

subsection \<open>The random source: when the rejection loops end\<close>

text \<open>The loop of \<^verbatim>\<open>randomNormal\<close> ends exactly when the source returns a value other
  than zero at some later call. A round returns a state whenever the source keeps doing so.\<close>

lemma drawNonzero_total: "rnd (p + k) \<noteq> 0 \<Longrightarrow> \<exists>r. drawNonzero rnd p = Some r"
proof (induction k arbitrary: p)
  case 0
  then show ?case by (subst drawNonzero.simps) simp
next
  case (Suc k)
  then have "\<exists>r. drawNonzero rnd (Suc p) = Some r" by simp
  then show ?case by (subst drawNonzero.simps) simp
qed

lemma drawNonzero_Some_nonzero:
  assumes "drawNonzero rnd p = Some r"
  shows "\<exists>k. rnd (p + k) \<noteq> 0"
proof (rule drawNonzero.raw_induct
    [where P = "\<lambda>rnd p r. \<exists>k. rnd (p + k) \<noteq> 0" and rnd = rnd and p = p and y = r])
  fix dn :: "rng \<Rightarrow> nat \<Rightarrow> (real \<times> nat) option" and rnd p r
  assume IH: "\<And>rnd p y. dn rnd p = Some y \<Longrightarrow> \<exists>k. rnd (p + k) \<noteq> 0"
    and eq: "(if rnd p = 0 then dn rnd (Suc p) else Some (rnd p, Suc p)) = Some r"
  show "\<exists>k. rnd (p + k) \<noteq> 0"
  proof (cases "rnd p = 0")
    case True
    with eq have "dn rnd (Suc p) = Some r" by simp
    from IH [OF this] obtain k where "rnd (Suc p + k) \<noteq> 0" ..
    then have "rnd (p + Suc k) \<noteq> 0" by simp
    then show ?thesis ..
  next
    case False
    then have "rnd (p + 0) \<noteq> 0" by simp
    then show ?thesis ..
  qed
next
  show "drawNonzero rnd p = Some r" by fact
qed

lemma drawNonzero_diverges: "(\<And>k. rnd (p + k) = 0) \<Longrightarrow> drawNonzero rnd p = None"
  using drawNonzero_Some_nonzero [of rnd p] by (cases "drawNonzero rnd p") auto

lemma drawNonzero_const: "c \<noteq> 0 \<Longrightarrow> drawNonzero (constRandom c) p = Some (c, Suc p)"
  by (subst drawNonzero.simps) (simp add: constRandom_def)

lemma randomNormal_const:
  "c \<noteq> 0 \<Longrightarrow>
     randomNormal (constRandom c) p = Some (sqrt (- 2 * ln c) * cos (2 * pi * c), Suc (Suc p))"
  by (simp add: randomNormal_def drawNonzero_const)

lemma randomNormal_quarter: "randomNormal (constRandom (1/4)) p = Some (0, p + 2)"
  using randomNormal_const [of "1/4" p] by simp

lemma constRandom_fair: "c \<noteq> 0 \<Longrightarrow> \<exists>k. constRandom c (p + k) \<noteq> 0"
  by (simp add: constRandom_def)

lemma randomNormal_total:
  assumes "\<And>p. \<exists>k. rnd (p + k) \<noteq> 0"
  shows "\<exists>r. randomNormal rnd p = Some r"
proof -
  from assms obtain k where "rnd (p + k) \<noteq> 0" by blast
  from drawNonzero_total [of rnd p k, OF this] obtain u p1 where u: "drawNonzero rnd p = Some (u, p1)"
    by (metis surj_pair)
  from assms obtain k' where "rnd (p1 + k') \<noteq> 0" by blast
  from drawNonzero_total [of rnd p1 k', OF this] obtain v p2 where "drawNonzero rnd p1 = Some (v, p2)"
    by (metis surj_pair)
  with u show ?thesis by (simp add: randomNormal_def)
qed

lemma gradientCoord_total:
  assumes "\<And>p. \<exists>k. rnd (p + k) \<noteq> 0"
  shows "\<exists>r. gradientCoord ty d l a gmd rnd i p = Some r"
proof -
  from randomNormal_total [OF assms] obtain n1 p1 where n1: "randomNormal rnd p = Some (n1, p1)"
    by (metis surj_pair)
  from randomNormal_total [OF assms] obtain n2 p2 where "randomNormal rnd p1 = Some (n2, p2)"
    by (metis surj_pair)
  with n1 show ?thesis by (simp add: gradientCoord_def Let_def)
qed

lemma generateGradient_total:
  assumes "\<And>p. \<exists>k. rnd (p + k) \<noteq> 0"
  shows "\<exists>r. generateGradient ty d l a gmd rnd p = Some r"
  unfolding generateGradient_def by (rule arrayFrom_total) (rule gradientCoord_total [OF assms])

lemma newClient_total:
  assumes "\<And>p. \<exists>k. rnd (p + k) \<noteq> 0"
  shows "\<exists>r. newClient cfg td rnd i p = Some r"
proof -
  obtain g p1 where
    "generateGradient (if real i < real NUM_CLIENTS * MALICIOUS_RATIO then malicious else benign)
       (if (if real i < real NUM_CLIENTS * MALICIOUS_RATIO then malicious else benign) = malicious then 0.9
        else real i / real NUM_CLIENTS)
       (nonIIDLevel cfg) (1.5 - attackStealth cfg) td rnd p = Some (g, p1)"
    using generateGradient_total [OF assms] by (metis surj_pair)
  then show ?thesis by (simp add: newClient_def Let_def)
qed

lemma newClients_total:
  assumes "\<And>p. \<exists>k. rnd (p + k) \<noteq> 0"
  shows "\<exists>r. newClients cfg td rnd p = Some r"
  unfolding newClients_def by (rule arrayFrom_total) (rule newClient_total [OF assms])

lemma runRound_total:
  assumes "\<And>p. \<exists>k. rnd (p + k) \<noteq> 0"
  shows "\<exists>s'. runRound cfg td rnd s = Some s'"
proof -
  from newClients_total [OF assms] obtain ncs p where
    "newClients cfg td rnd 0 = Some (ncs, p)"
    by (metis surj_pair)
  then show ?thesis by (simp add: runRound_def)
qed

lemma runRounds_total:
  assumes "\<And>cfg rnd p. (cfg, rnd) \<in> set ins \<Longrightarrow> \<exists>k. rnd (p + k) \<noteq> 0"
  shows "\<exists>ss. runRounds td ins s = Some ss"
  using assms
proof (induction ins arbitrary: s)
  case Nil
  then show ?case by simp
next
  case (Cons x ins)
  obtain cfg rnd where x: "x = (cfg, rnd)" by (cases x)
  have "(cfg, rnd) \<in> set (x # ins)" using x by simp
  then have "\<And>p. \<exists>k. rnd (p + k) \<noteq> 0" by (rule Cons.prems)
  from runRound_total [OF this] obtain s' where s': "runRound cfg td rnd s = Some s'" by blast
  have "\<exists>ss. runRounds td ins s' = Some ss"
  proof (rule Cons.IH)
    fix c r p
    assume "(c, r) \<in> set ins"
    then have "(c, r) \<in> set (x # ins)" by simp
    then show "\<exists>k. r (p + k) \<noteq> 0" by (rule Cons.prems)
  qed
  with s' x show ?case by auto
qed

lemma runRounds_length: "runRounds td ins s = Some ss \<Longrightarrow> length ss = length ins"
  by (induction td ins s arbitrary: ss rule: runRounds.induct) (auto split: option.splits)

lemma runRound_sample:
  "c \<noteq> 0 \<Longrightarrow> runRound cfg td (constRandom c) s = Some (the (runRound cfg td (constRandom c) s))"
  using runRound_total [of "constRandom c" cfg td s] constRandom_fair [of c] by auto

lemma runRounds_sample:
  assumes "c \<noteq> 0"
  shows "runRounds td (replicate m (cfg, constRandom c)) s
           = Some (the (runRounds td (replicate m (cfg, constRandom c)) s))"
proof -
  have "\<exists>ss. runRounds td (replicate m (cfg, constRandom c)) s = Some ss"
  proof (rule runRounds_total)
    fix cfg' rnd p
    assume "(cfg', rnd) \<in> set (replicate m (cfg, constRandom c))"
    then have "rnd = constRandom c" by simp
    with assms show "\<exists>k. rnd (p + k) \<noteq> 0" by (simp add: constRandom_def)
  qed
  then show ?thesis by auto
qed

subsection \<open>The steps of a round\<close>

lemma runRound_SomeD:
  assumes "runRound cfg td rnd s = Some s'"
  obtains ncs p where "newClients cfg td rnd 0 = Some (ncs, p)"
    and "s' = finishRound cfg td s ncs"
  using assms by (auto simp: runRound_def split: option.splits prod.splits)

lemma countAccepted_foldl:
  "foldl (\<lambda>(acceptedCount, maliciousAccepted) c.
        if isAccepted c then
          (acceptedCount + 1,
           if type_client c = malicious then maliciousAccepted + 1 else maliciousAccepted)
        else (acceptedCount, maliciousAccepted)) (a, m) cs
   = (a + length (filter isAccepted cs),
      m + length (filter (\<lambda>c. isAccepted c \<and> type_client c = malicious) cs))"
  by (induction cs arbitrary: a m) simp_all

lemma countAccepted_eq:
  "countAccepted cs = (length (filter isAccepted cs),
      length (filter (\<lambda>c. isAccepted c \<and> type_client c = malicious) cs))"
  by (simp add: countAccepted_def countAccepted_foldl)

lemma round_finishRound: "round_st (finishRound cfg td prev ncs) = round_st prev + 1"
  by (simp add: finishRound_def Let_def split: prod.splits)

lemma globalFIM_finishRound: "globalFIM (finishRound cfg td prev ncs) = updateFIM cfg (globalFIM prev)"
  by (simp add: finishRound_def Let_def split: prod.splits)

lemma clients_finishRound:
  "clients (finishRound cfg td prev ncs)
     = map (processClient cfg (updateFIM cfg (globalFIM prev)) td) ncs"
  by (simp add: finishRound_def Let_def split: prod.splits)

lemma history_finishRound:
  "history (finishRound cfg td prev ncs)
     = sliceLast 50 (history prev @
         [\<lparr> round_h = round_st (finishRound cfg td prev ncs),
            acc_h = globalAccuracy (finishRound cfg td prev ncs),
            asr_h = backdoorSuccessRate (finishRound cfg td prev ncs) \<rparr>])"
  by (simp add: finishRound_def Let_def split: prod.splits)

lemma metrics_finishRound:
  fixes cfg td prev ncs
  defines "s' \<equiv> finishRound cfg td prev ncs"
  defines "aC \<equiv> length (filter isAccepted (clients s'))"
  defines "mA \<equiv> length (filter (\<lambda>c. isAccepted c \<and> type_client c = malicious) (clients s'))"
  defines "impact \<equiv> real mA / real (max aC 1)"
  shows "globalAccuracy s' = 0.8 * globalAccuracy prev + 0.2 * (0.95 - impact * 0.5)"
    and "backdoorSuccessRate s' = 0.8 * backdoorSuccessRate prev + 0.2 * (if impact > 0.1 then 0.9 else 0)"
proof -
  let ?cs = "map (processClient cfg (updateFIM cfg (globalFIM prev)) td) ncs"
  have cs: "clients s' = ?cs" by (simp add: s'_def clients_finishRound)
  have cnt: "countAccepted ?cs = (aC, mA)"
    unfolding aC_def mA_def cs by (rule countAccepted_eq)
  have imp: "real mA / real (if aC = 0 then 1 else aC) = impact"
    by (simp add: impact_def max_def)
  have "globalAccuracy s'
      = globalAccuracy prev * 0.8 + (0.95 - real mA / real (if aC = 0 then 1 else aC) * 0.5) * 0.2"
    unfolding s'_def finishRound_def Let_def cnt by simp
  then show "globalAccuracy s' = 0.8 * globalAccuracy prev + 0.2 * (0.95 - impact * 0.5)"
    unfolding imp by simp
  have "backdoorSuccessRate s'
      = backdoorSuccessRate prev * 0.8
        + (if real mA / real (if aC = 0 then 1 else aC) > 0.1 then 0.9 else 0.0) * 0.2"
    unfolding s'_def finishRound_def Let_def cnt by simp
  then show "backdoorSuccessRate s'
      = 0.8 * backdoorSuccessRate prev + 0.2 * (if impact > 0.1 then 0.9 else 0)"
    unfolding imp by simp
qed

lemma generateGradient_length:
  "generateGradient ty d l a gmd rnd p = Some (g, q) \<Longrightarrow> length g = VECTOR_DIM"
  unfolding generateGradient_def by (drule arrayFrom_length) simp

lemma newClient_SomeD:
  assumes "newClient cfg td rnd i p = Some (c, q)"
  shows "id_client c = i"
    and "type_client c = (if real i < real NUM_CLIENTS * MALICIOUS_RATIO then malicious else benign)"
    and "dataDistribution c = (if real i < real NUM_CLIENTS * MALICIOUS_RATIO then 0.9 else real i / real NUM_CLIENTS)"
    and "length (gradient c) = VECTOR_DIM"
    and "stiffnessViolationScore c = 0"
    and "isAccepted c"
  using assms
  by (auto simp: newClient_def Let_def split: option.splits if_splits
      dest: generateGradient_length)

lemma newClient_record:
  assumes "newClient cfg td rnd i p = Some (c, q)"
  shows "c = \<lparr> id_client = i,
               type_client = (if real i < real NUM_CLIENTS * MALICIOUS_RATIO then malicious else benign),
               gradient = gradient c,
               dataDistribution = (if real i < real NUM_CLIENTS * MALICIOUS_RATIO then 0.9 else real i / real NUM_CLIENTS),
               stiffnessViolationScore = 0, isAccepted = True \<rparr>"
  using assms by (auto simp: newClient_def Let_def split: option.splits if_splits)

lemma newClients_length: "newClients cfg td rnd p = Some (ncs, q) \<Longrightarrow> length ncs = NUM_CLIENTS"
  unfolding newClients_def by (drule arrayFrom_length) simp

lemma newClients_nth:
  assumes "newClients cfg td rnd p = Some (ncs, q)" and "i < NUM_CLIENTS"
  shows "\<exists>p1 p2. newClient cfg td rnd i p1 = Some (ncs ! i, p2)"
proof -
  from assms(1) have "arrayFrom (newClient cfg td rnd) [0..<NUM_CLIENTS] p = Some (ncs, q)"
    by (simp add: newClients_def)
  from arrayFrom_nth [OF this, of i] assms(2) show ?thesis by simp
qed

lemma newClients_gradient_length:
  assumes "newClients cfg td rnd p = Some (ncs, q)" and "c \<in> set ncs"
  shows "length (gradient c) = VECTOR_DIM"
proof -
  from assms(2) obtain i where i: "i < length ncs" and c: "c = ncs ! i"
    by (auto simp: in_set_conv_nth)
  from i newClients_length [OF assms(1)] have "i < NUM_CLIENTS" by simp
  from newClients_nth [OF assms(1) this] c show ?thesis
    by (auto dest: newClient_SomeD(4))
qed

lemma newClients_types:
  assumes "newClients cfg td rnd p = Some (ncs, q)"
  shows "map type_client ncs
           = map (\<lambda>i. if real i < real NUM_CLIENTS * MALICIOUS_RATIO then malicious else benign)
               [0..<NUM_CLIENTS]"
    and "map id_client ncs = [0..<NUM_CLIENTS]"
proof -
  have len: "length ncs = NUM_CLIENTS" by (rule newClients_length [OF assms])
  have nth: "type_client (ncs ! i)
        = (if real i < real NUM_CLIENTS * MALICIOUS_RATIO then malicious else benign)
      \<and> id_client (ncs ! i) = i" if "i < NUM_CLIENTS" for i
    using newClients_nth [OF assms that] by (auto dest: newClient_SomeD(1,2))
  show "map type_client ncs
          = map (\<lambda>i. if real i < real NUM_CLIENTS * MALICIOUS_RATIO then malicious else benign)
              [0..<NUM_CLIENTS]"
    by (rule nth_equalityI) (simp_all add: len nth)
  show "map id_client ncs = [0..<NUM_CLIENTS]"
    by (rule nth_equalityI) (simp_all add: len nth)
qed

lemma stiffnessSum_eq: "stiffnessSum fim g = (\<Sum>j<length g. fim ! j * \<bar>g ! j\<bar>)"
  unfolding stiffnessSum_def by (simp add: reduceIdx_sum)

lemma weightedDist_eq:
  "weightedDist cfg fim td g
     = (\<Sum>j<VECTOR_DIM. (if useLayerWeightedClustering cfg then fim ! j else 1) * (g ! j - td ! j)\<^sup>2)"
  unfolding weightedDist_def Let_def by (simp add: foldl_upt_sum power2_eq_square)

lemma weightedDist_enabled:
  "useLayerWeightedClustering cfg \<Longrightarrow>
     weightedDist cfg fim td g = (\<Sum>j<VECTOR_DIM. fim ! j * (g ! j - td ! j)\<^sup>2)"
  by (simp add: weightedDist_eq)

lemma mag_eq: "mag g = sqrt (\<Sum>j<length g. (g ! j)\<^sup>2)"
  unfolding mag_def by (simp add: foldl_squares)

lemma gradient_processClient [simp]: "gradient (processClient cfg fim td c) = gradient c"
  and type_processClient [simp]: "type_client (processClient cfg fim td c) = type_client c"
  and id_processClient [simp]: "id_client (processClient cfg fim td c) = id_client c"
  and dataDistribution_processClient [simp]:
    "dataDistribution (processClient cfg fim td c) = dataDistribution c"
  by (simp_all add: processClient_def Let_def)

lemma mechanismA_eq:
  "mechanismA cfg fim g (False, 0)
     = (useStiffnessMask cfg \<and>
          stiffnessSum fim g / real VECTOR_DIM
            > (if useMomentumFIM cfg then 12 else 15) * (1 + nonIIDLevel cfg),
        if useStiffnessMask cfg then stiffnessSum fim g / real VECTOR_DIM else 0)"
  by (simp add: mechanismA_def Let_def)

lemma mechanismB_eq:
  "mechanismB cfg fim td g flag
     = (flag \<or> useLayerWeightedClustering cfg
                \<and> weightedDist cfg fim td g > 500 * (1 + nonIIDLevel cfg))"
  by (auto simp: mechanismB_def)

lemma fallbackCheck_eq:
  "fallbackCheck cfg g flag
     = (flag \<or> \<not> useStiffnessMask cfg \<and> \<not> useLayerWeightedClustering cfg \<and> mag g > 25)"
  by (auto simp: fallbackCheck_def)

lemma score_processClient:
  "stiffnessViolationScore (processClient cfg fim td c)
     = (if useStiffnessMask cfg then stiffnessSum fim (gradient c) / real VECTOR_DIM else 0)"
  by (simp add: processClient_def Let_def mechanismA_eq)

lemma isAccepted_processClient:
  "isAccepted (processClient cfg fim td c) \<longleftrightarrow>
     \<not> (useStiffnessMask cfg \<and>
          stiffnessSum fim (gradient c) / real VECTOR_DIM
            > (if useMomentumFIM cfg then 12 else 15) * (1 + nonIIDLevel cfg)
        \<or> useLayerWeightedClustering cfg
            \<and> weightedDist cfg fim td (gradient c) > 500 * (1 + nonIIDLevel cfg)
        \<or> \<not> useStiffnessMask cfg \<and> \<not> useLayerWeightedClustering cfg \<and> mag (gradient c) > 25)"
  by (simp add: processClient_def Let_def mechanismA_eq mechanismB_eq fallbackCheck_eq)

lemma processClient_eq:
  "processClient cfg fim td c
     = c\<lparr> stiffnessViolationScore :=
            (if useStiffnessMask cfg then stiffnessSum fim (gradient c) / real VECTOR_DIM else 0),
          isAccepted :=
            \<not> (useStiffnessMask cfg \<and>
                 stiffnessSum fim (gradient c) / real VECTOR_DIM
                   > (if useMomentumFIM cfg then 12 else 15) * (1 + nonIIDLevel cfg)
               \<or> useLayerWeightedClustering cfg
                   \<and> weightedDist cfg fim td (gradient c) > 500 * (1 + nonIIDLevel cfg)
               \<or> \<not> useStiffnessMask cfg \<and> \<not> useLayerWeightedClustering cfg
                   \<and> mag (gradient c) > 25) \<rparr>"
  by (simp add: processClient_def Let_def mechanismA_eq mechanismB_eq fallbackCheck_eq)

text \<open>What a round leaves in the client list.\<close>

lemma runRound_clients:
  assumes "runRound cfg td rnd s = Some s'" and "c \<in> set (clients s')"
  shows "length (gradient c) = VECTOR_DIM"
    and "stiffnessViolationScore c
          = (if useStiffnessMask cfg then stiffnessSum (globalFIM s') (gradient c) / real VECTOR_DIM else 0)"
    and "isAccepted c \<longleftrightarrow>
     \<not> (useStiffnessMask cfg \<and>
          stiffnessSum (globalFIM s') (gradient c) / real VECTOR_DIM
            > (if useMomentumFIM cfg then 12 else 15) * (1 + nonIIDLevel cfg)
        \<or> useLayerWeightedClustering cfg
            \<and> weightedDist cfg (globalFIM s') td (gradient c) > 500 * (1 + nonIIDLevel cfg)
        \<or> \<not> useStiffnessMask cfg \<and> \<not> useLayerWeightedClustering cfg \<and> mag (gradient c) > 25)"
proof -
  from assms(1) obtain ncs p where
    nc: "newClients cfg td rnd 0 = Some (ncs, p)"
    and s': "s' = finishRound cfg td s ncs"
    by (rule runRound_SomeD)
  have fim: "globalFIM s' = updateFIM cfg (globalFIM s)" by (simp add: s' globalFIM_finishRound)
  from assms(2) obtain c0 where c0: "c0 \<in> set ncs" and c: "c = processClient cfg (globalFIM s') td c0"
    by (auto simp: s' clients_finishRound globalFIM_finishRound)
  show "length (gradient c) = VECTOR_DIM"
    using newClients_gradient_length [OF nc c0] c by simp
  show "stiffnessViolationScore c
          = (if useStiffnessMask cfg then stiffnessSum (globalFIM s') (gradient c) / real VECTOR_DIM else 0)"
    unfolding c score_processClient by simp
  show "isAccepted c \<longleftrightarrow>
     \<not> (useStiffnessMask cfg \<and>
          stiffnessSum (globalFIM s') (gradient c) / real VECTOR_DIM
            > (if useMomentumFIM cfg then 12 else 15) * (1 + nonIIDLevel cfg)
        \<or> useLayerWeightedClustering cfg
            \<and> weightedDist cfg (globalFIM s') td (gradient c) > 500 * (1 + nonIIDLevel cfg)
        \<or> \<not> useStiffnessMask cfg \<and> \<not> useLayerWeightedClustering cfg \<and> mag (gradient c) > 25)"
    unfolding c isAccepted_processClient by simp
qed

lemma runRound_clients_length:
  "runRound cfg td rnd s = Some s' \<Longrightarrow> length (clients s') = NUM_CLIENTS"
  by (erule runRound_SomeD) (simp add: clients_finishRound newClients_length)

lemma length_updateFIM: "length (updateFIM cfg f) = length f"
  by (simp add: updateFIM_def length_mapIdx)

lemma nth_idealFIM: "j < VECTOR_DIM \<Longrightarrow> idealFIM ! j = (if j < 5 then 10 else 1)"
  by (simp add: idealFIM_def)

lemma updateFIM_eq:
  assumes "length f = VECTOR_DIM"
  shows "updateFIM cfg f
     = (if useMomentumFIM cfg
        then map (\<lambda>j. 0.9 * f ! j + 0.1 * (if j < 5 then 10 else 1)) [0..<VECTOR_DIM]
        else f)"
proof (cases "useMomentumFIM cfg")
  case True
  have "mapIdx (\<lambda>f i. 0.9 * f + 0.1 * (idealFIM ! i)) f
      = map (\<lambda>j. 0.9 * f ! j + 0.1 * (if j < 5 then 10 else 1)) [0..<VECTOR_DIM]"
    by (rule nth_equalityI) (simp_all add: length_mapIdx nth_mapIdx assms nth_idealFIM)
  with True show ?thesis by (simp add: updateFIM_def)
next
  case False
  then show ?thesis by (simp add: updateFIM_def)
qed

lemma updateFIM_bounds:
  assumes "length f = VECTOR_DIM" and "\<And>j. j < VECTOR_DIM \<Longrightarrow> 0 \<le> f ! j \<and> f ! j \<le> 10"
    and "j < VECTOR_DIM"
  shows "0 \<le> updateFIM cfg f ! j \<and> updateFIM cfg f ! j \<le> 10"
proof (cases "useMomentumFIM cfg")
  case True
  from assms(2) [OF assms(3)] have "0 \<le> f ! j" and "f ! j \<le> 10" by simp_all
  then have "0 \<le> 0.9 * f ! j + 0.1 * (if j < 5 then 10 else 1)"
    and "0.9 * f ! j + 0.1 * (if j < 5 then 10 else 1) \<le> 10"
    by simp_all
  with True assms(3) show ?thesis by (simp add: updateFIM_eq [OF assms(1)])
next
  case False
  with assms(2) [OF assms(3)] show ?thesis by (simp add: updateFIM_def)
qed

lemma runRound_globalFIM:
  "runRound cfg td rnd s = Some s' \<Longrightarrow> globalFIM s' = updateFIM cfg (globalFIM s)"
  by (erule runRound_SomeD) (simp add: globalFIM_finishRound)

lemma runRound_history:
  assumes "runRound cfg td rnd s = Some s'"
  shows "history s' = sliceLast 50 (history s @ [entryOf s'])" and "round_st s' = round_st s + 1"
proof -
  from assms obtain ncs p where s': "s' = finishRound cfg td s ncs" by (rule runRound_SomeD)
  show "history s' = sliceLast 50 (history s @ [entryOf s'])"
    unfolding s' entryOf_def by (rule history_finishRound)
  show "round_st s' = round_st s + 1" unfolding s' by (rule round_finishRound)
qed

lemma runRound_history_length: "runRound cfg td rnd s = Some s' \<Longrightarrow> length (history s') \<le> 50"
  by (simp add: runRound_history(1) length_sliceLast)

lemma round_h_entryOf: "round_h (entryOf s) = round_st s"
  by (simp add: entryOf_def)

subsection \<open>Runs\<close>

lemma runRounds_ConsD:
  assumes "runRounds td ((cfg, rnd) # rest) s = Some ss"
  obtains s1 ss' where "runRound cfg td rnd s = Some s1" and "runRounds td rest s1 = Some ss'"
    and "ss = s1 # ss'"
  using assms by (auto split: option.splits)

lemma runRounds_step:
  assumes "runRounds td ins s0 = Some ss" and "k < length ss"
  shows "\<exists>cfg rnd. runRound cfg td rnd ((s0 # ss) ! k) = Some (ss ! k)"
  using assms
proof (induction td ins s0 arbitrary: ss k rule: runRounds.induct)
  case (1 td s)
  then show ?case by simp
next
  case (2 td cfg rnd rest s)
  from "2.prems"(1) obtain s1 ss' where
    r: "runRound cfg td rnd s = Some s1" and rs: "runRounds td rest s1 = Some ss'"
    and ss: "ss = s1 # ss'"
    by (auto split: option.splits)
  show ?case
  proof (cases k)
    case 0
    with r ss show ?thesis by auto
  next
    case (Suc k')
    with "2.prems"(2) ss have "k' < length ss'" by simp
    from "2.IH" [OF r rs this] Suc ss show ?thesis by simp
  qed
qed

lemma runRounds_history:
  "runRounds td ins s0 = Some ss \<Longrightarrow> length (history s0) \<le> 50 \<Longrightarrow>
     history (last (s0 # ss)) = sliceLast 50 (history s0 @ map entryOf ss)"
proof (induction td ins s0 arbitrary: ss rule: runRounds.induct)
  case (1 td s)
  then show ?case by (simp add: sliceLast_def)
next
  case (2 td cfg rnd rest s)
  from "2.prems"(1) obtain s1 ss' where
    r: "runRound cfg td rnd s = Some s1" and rs: "runRounds td rest s1 = Some ss'"
    and ss: "ss = s1 # ss'"
    by (auto split: option.splits)
  have "history (last (s1 # ss')) = sliceLast 50 (history s1 @ map entryOf ss')"
    by (rule "2.IH" [OF r rs runRound_history_length [OF r]])
  also have "\<dots> = sliceLast 50 ((history s @ [entryOf s1]) @ map entryOf ss')"
    unfolding runRound_history(1) [OF r] by (rule sliceLast_append_sliceLast)
  finally show ?case by (simp add: ss)
qed

lemma runRounds_round:
  "runRounds td ins s0 = Some ss \<Longrightarrow>
     map round_st ss = [Suc (round_st s0)..<Suc (round_st s0) + length ss]"
proof (induction td ins s0 arbitrary: ss rule: runRounds.induct)
  case (1 td s)
  then show ?case by simp
next
  case (2 td cfg rnd rest s)
  from "2.prems"(1) obtain s1 ss' where
    r: "runRound cfg td rnd s = Some s1" and rs: "runRounds td rest s1 = Some ss'"
    and ss: "ss = s1 # ss'"
    by (auto split: option.splits)
  have "map round_st ss' = [Suc (round_st s1)..<Suc (round_st s1) + length ss']"
    by (rule "2.IH" [OF r rs])
  then show ?case
    unfolding ss using runRound_history(2) [OF r] by (simp add: upt_conv_Cons del: upt_Suc)
qed

lemma runRounds_reachable:
  assumes "runRounds td ins s0 = Some ss" and "reachable td s0" and "s \<in> set ss"
  shows "reachable td s"
  using assms
proof (induction td ins s0 arbitrary: ss rule: runRounds.induct)
  case (1 td s0)
  then show ?case by simp
next
  case (2 td cfg rnd rest s0)
  from "2.prems"(1) obtain s1 ss' where
    r: "runRound cfg td rnd s0 = Some s1" and rs: "runRounds td rest s1 = Some ss'"
    and ss: "ss = s1 # ss'"
    by (auto split: option.splits)
  have r1: "reachable td s1" by (rule reach_round [OF "2.prems"(2) r])
  from "2.prems"(3) ss have "s = s1 \<or> s \<in> set ss'" by simp
  then show ?case
  proof
    assume "s = s1"
    with r1 show ?thesis by simp
  next
    assume "s \<in> set ss'"
    then show ?thesis by (rule "2.IH" [OF r rs r1])
  qed
qed

subsection \<open>Three rounds computed in full\<close>

text \<open>The non-IID level is 0, the true direction is the zero vector and every draw of the
  random source is 1/4, so that every normal sample is
  \<open>sqrt (- 2 * ln (1/4)) * cos (pi / 2) = 0\<close>: a benign gradient is the zero vector, a
  malicious one has \<open>- 5 * (1.5 - attackStealth)\<close> at the coordinates 0 to 4.\<close>

lemma gradientCoord_quarter:
  "gradientCoord ty d 0 a td (constRandom (1/4)) i p
     = Some (td ! i - (if ty = malicious \<and> i < 5 then a * 5 else 0),
             p + (if ty = malicious \<and> \<not> i < 5 then 4 else 2))"
  by (simp add: gradientCoord_def randomNormal_quarter Let_def)

lemma generateGradient_quarter:
  "generateGradient ty d 0 a td (constRandom (1/4)) p
     = Some (map (\<lambda>i. td ! i - (if ty = malicious \<and> i < 5 then a * 5 else 0)) [0..<VECTOR_DIM],
             p + sum_list (map (\<lambda>i. if ty = malicious \<and> \<not> i < 5 then 4 else 2) [0..<VECTOR_DIM]))"
  unfolding generateGradient_def by (rule arrayFrom_det) (rule gradientCoord_quarter)

lemma gradient_zero_direction:
  "map (\<lambda>i. replicate VECTOR_DIM (0::real) ! i - (if ty = malicious \<and> i < 5 then a * 5 else 0))
     [0..<VECTOR_DIM]
   = (if ty = malicious then replicate 5 (- (a * 5)) @ replicate 15 0 else replicate 20 0)"
  by (simp add: VECTOR_DIM_def upt_20 numeral_eq_Suc)

lemma newClient_quarter:
  assumes "nonIIDLevel cfg = 0"
  shows "newClient cfg (replicate VECTOR_DIM 0) (constRandom (1/4)) i p
     = Some (\<lparr> id_client = i,
                type_client = (if real i < real NUM_CLIENTS * MALICIOUS_RATIO then malicious else benign),
                gradient = (if real i < real NUM_CLIENTS * MALICIOUS_RATIO
                            then replicate 5 (- ((1.5 - attackStealth cfg) * 5)) @ replicate 15 0
                            else replicate 20 0),
                dataDistribution = (if real i < real NUM_CLIENTS * MALICIOUS_RATIO then 0.9 else real i / real NUM_CLIENTS),
                stiffnessViolationScore = 0, isAccepted = True \<rparr>,
             p + sum_list (map (\<lambda>j. if real i < real NUM_CLIENTS * MALICIOUS_RATIO \<and> \<not> j < 5 then 4 else 2)
                            [0..<VECTOR_DIM]))"
  by (simp add: newClient_def Let_def assms generateGradient_quarter gradient_zero_direction)

lemma newClients_quarter:
  assumes "nonIIDLevel cfg = 0" and "- ((1.5 - attackStealth cfg) * 5) = v"
  shows "\<exists>q. newClients cfg sampleTrueGradient (constRandom (1/4)) 0
     = Some (sampleClients v 0 True, q)"
proof -
  have m: "real i < 20 * MALICIOUS_RATIO \<longleftrightarrow> i < 4" for i
    by (auto simp: MALICIOUS_RATIO_def)
  have t: "real NUM_CLIENTS = 20" by (simp add: NUM_CLIENTS_def)
  note nc = newClient_quarter [OF assms(1), unfolded t, unfolded m assms(2)]
  show ?thesis
    unfolding newClients_def sampleTrueGradient_def sampleClients_def arrayFrom_det [of _ _ _, OF nc]
    by (simp add: NUM_CLIENTS_def)
qed

lemma first_fim:
  assumes "useMomentumFIM cfg"
  shows "updateFIM cfg (globalFIM initialState) = replicate 5 1.9 @ replicate 15 1"
proof -
  have "length (globalFIM initialState) = VECTOR_DIM" by (simp add: initialState_def)
  from updateFIM_eq [OF this, of cfg] assms show ?thesis
    by (simp add: initialState_def VECTOR_DIM_def upt_20 numeral_eq_Suc)
qed

lemma stiffness_trigger:
  "stiffnessSum (replicate 5 1.9 @ replicate 15 1) (replicate 5 v @ replicate 15 0) = 9.5 * \<bar>v\<bar>"
  by (simp add: stiffnessSum_def reduceIdx_def upt_20 numeral_eq_Suc)

lemma stiffness_zero: "stiffnessSum (replicate 5 1.9 @ replicate 15 1) (replicate 20 0) = 0"
  by (simp add: stiffnessSum_def reduceIdx_def upt_20 numeral_eq_Suc)

lemma dist_trigger:
  assumes "useLayerWeightedClustering cfg"
  shows "weightedDist cfg (replicate 5 1.9 @ replicate 15 1) sampleTrueGradient
     (replicate 5 v @ replicate 15 0) = 9.5 * (v * v)"
  by (simp add: weightedDist_def Let_def assms sampleTrueGradient_def
      VECTOR_DIM_def upt_20 numeral_eq_Suc)

lemma dist_zero:
  "weightedDist cfg (replicate 5 1.9 @ replicate 15 1) sampleTrueGradient (replicate 20 0) = 0"
  by (simp add: weightedDist_def Let_def sampleTrueGradient_def
      VECTOR_DIM_def upt_20 numeral_eq_Suc)

lemma mag_trigger: "mag (replicate 5 v @ replicate 15 0) = sqrt (5 * (v * v))"
  by (simp add: mag_def numeral_eq_Suc)

lemma mag_zero: "mag (replicate 20 0) = 0"
  by (simp add: mag_def numeral_eq_Suc)

lemma process_sampleClients:
  assumes "nonIIDLevel cfg = 0"
    and "(if useStiffnessMask cfg then 9.5 * \<bar>v\<bar> / 20 else 0) = sc"
    and "(\<not> (useStiffnessMask cfg \<and> 9.5 * \<bar>v\<bar> / 20 > (if useMomentumFIM cfg then 12 else 15)
             \<or> useLayerWeightedClustering cfg \<and> 9.5 * (v * v) > 500
             \<or> \<not> useStiffnessMask cfg \<and> \<not> useLayerWeightedClustering cfg
                 \<and> sqrt (5 * (v * v)) > 25)) = ok"
  shows "map (processClient cfg (replicate 5 1.9 @ replicate 15 1) sampleTrueGradient)
           (sampleClients v 0 True) = sampleClients v sc ok"
proof -
  have d: "useLayerWeightedClustering cfg \<and>
        weightedDist cfg (replicate 5 1.9 @ replicate 15 1) sampleTrueGradient
          (replicate 5 v @ replicate 15 0) > 500
      \<longleftrightarrow> useLayerWeightedClustering cfg \<and> 9.5 * (v * v) > 500"
    by (auto simp: dist_trigger)
  have mal: "processClient cfg (replicate 5 1.9 @ replicate 15 1) sampleTrueGradient
        \<lparr> id_client = i, type_client = malicious, gradient = replicate 5 v @ replicate 15 0,
          dataDistribution = 0.9, stiffnessViolationScore = 0, isAccepted = True \<rparr>
      = \<lparr> id_client = i, type_client = malicious, gradient = replicate 5 v @ replicate 15 0,
          dataDistribution = 0.9, stiffnessViolationScore = sc, isAccepted = ok \<rparr>" for i
    unfolding processClient_eq
    by (simp add: assms(1) stiffness_trigger mag_trigger d VECTOR_DIM_def
        assms(2) [symmetric] assms(3) [symmetric])
  have ben: "processClient cfg (replicate 5 1.9 @ replicate 15 1) sampleTrueGradient
        \<lparr> id_client = i, type_client = benign, gradient = replicate 20 0,
          dataDistribution = x, stiffnessViolationScore = 0, isAccepted = True \<rparr>
      = \<lparr> id_client = i, type_client = benign, gradient = replicate 20 0,
          dataDistribution = x, stiffnessViolationScore = 0, isAccepted = True \<rparr>" for i x
    unfolding processClient_eq
    by (simp add: assms(1) stiffness_zero mag_zero dist_zero)
  show ?thesis
    unfolding sampleClients_def map_map o_def
    by (rule map_cong [OF refl]) (simp add: mal ben)
qed

lemma countAccepted_sampleClients:
  "countAccepted (sampleClients v sc ok) = (if ok then (20, 4) else (16, 0))"
  unfolding countAccepted_eq sampleClients_def by (simp add: upt_20)

lemma hd_sampleClients:
  "hd (sampleClients v sc ok)
     = \<lparr> id_client = 0, type_client = malicious, gradient = replicate 5 v @ replicate 15 0,
         dataDistribution = 0.9, stiffnessViolationScore = sc, isAccepted = ok \<rparr>"
  and hd_in_sampleClients: "hd (sampleClients v sc ok) \<in> set (sampleClients v sc ok)"
  by (simp_all add: sampleClients_def upt_20)

lemma sample_round:
  "runRound iidConfig sampleTrueGradient (constRandom (1/4)) initialState = Some sampleState"
proof -
  have z: "nonIIDLevel iidConfig = 0" and m: "useMomentumFIM iidConfig"
    by (simp_all add: iidConfig_def defaultConfig_def)
  have v: "- ((1.5 - attackStealth iidConfig) * 5) = - 4.5"
    by (simp add: iidConfig_def defaultConfig_def)
  from newClients_quarter [OF z v] obtain q where
    nc: "newClients iidConfig sampleTrueGradient (constRandom (1/4)) 0
       = Some (sampleClients (- 4.5) 0 True, q)" ..
  have pcs: "map (processClient iidConfig (replicate 5 1.9 @ replicate 15 1) sampleTrueGradient)
      (sampleClients (- 4.5) 0 True) = sampleClients (- 4.5) 2.1375 True"
    by (rule process_sampleClients [OF z]) (simp_all add: iidConfig_def defaultConfig_def)
  have "finishRound iidConfig sampleTrueGradient initialState (sampleClients (- 4.5) 0 True)
      = sampleState"
    unfolding finishRound_def Let_def first_fim [OF m] pcs countAccepted_sampleClients
    by (simp add: initialState_def sampleState_def sliceLast_def)
  with nc show ?thesis by (simp add: runRound_def)
qed

lemma loud_round:
  "runRound loudConfig sampleTrueGradient (constRandom (1/4)) initialState = Some loudState"
proof -
  have z: "nonIIDLevel loudConfig = 0" and m: "useMomentumFIM loudConfig"
    by (simp_all add: loudConfig_def iidConfig_def defaultConfig_def)
  have v: "- ((1.5 - attackStealth loudConfig) * 5) = - 7.5"
    by (simp add: loudConfig_def iidConfig_def defaultConfig_def)
  from newClients_quarter [OF z v] obtain q where
    nc: "newClients loudConfig sampleTrueGradient (constRandom (1/4)) 0
       = Some (sampleClients (- 7.5) 0 True, q)" ..
  have pcs: "map (processClient loudConfig (replicate 5 1.9 @ replicate 15 1) sampleTrueGradient)
      (sampleClients (- 7.5) 0 True) = sampleClients (- 7.5) 3.5625 False"
    by (rule process_sampleClients [OF z])
      (simp_all add: loudConfig_def iidConfig_def defaultConfig_def)
  have "finishRound loudConfig sampleTrueGradient initialState (sampleClients (- 7.5) 0 True)
      = loudState"
    unfolding finishRound_def Let_def first_fim [OF m] pcs countAccepted_sampleClients
    by (simp add: initialState_def loudState_def sliceLast_def)
  with nc show ?thesis by (simp add: runRound_def)
qed

lemma undefended_round:
  "runRound undefendedConfig sampleTrueGradient (constRandom (1/4)) initialState
     = Some undefendedState"
proof -
  have z: "nonIIDLevel undefendedConfig = 0" and m: "useMomentumFIM undefendedConfig"
    by (simp_all add: undefendedConfig_def iidConfig_def defaultConfig_def)
  have v: "- ((1.5 - attackStealth undefendedConfig) * 5) = - 4.5"
    by (simp add: undefendedConfig_def iidConfig_def defaultConfig_def)
  from newClients_quarter [OF z v] obtain q where
    nc: "newClients undefendedConfig sampleTrueGradient
           (constRandom (1/4)) 0
       = Some (sampleClients (- 4.5) 0 True, q)" ..
  have "sqrt (5 * (4.5 * 4.5)) \<le> (25::real)" by (rule real_le_lsqrt) simp_all
  then have sq: "\<not> sqrt (5 * (4.5 * 4.5)) > (25::real)" by simp
  have pcs: "map (processClient undefendedConfig (replicate 5 1.9 @ replicate 15 1) sampleTrueGradient)
      (sampleClients (- 4.5) 0 True) = sampleClients (- 4.5) 0 True"
    by (rule process_sampleClients [OF z])
      (use sq in \<open>simp_all add: undefendedConfig_def iidConfig_def defaultConfig_def\<close>)
  have "finishRound undefendedConfig sampleTrueGradient initialState (sampleClients (- 4.5) 0 True)
      = undefendedState"
    unfolding finishRound_def Let_def first_fim [OF m] pcs countAccepted_sampleClients
    by (simp add: initialState_def undefendedState_def sliceLast_def)
  with nc show ?thesis by (simp add: runRound_def)
qed

subsection \<open>Rounding to binary64\<close>

lemma roundHalfEven_of_int [simp]: "roundHalfEven (of_int n) = n"
  by (simp add: roundHalfEven_def)

lemma roundHalfEven_bounds: "\<lfloor>x\<rfloor> \<le> roundHalfEven x" "roundHalfEven x \<le> \<lfloor>x\<rfloor> + 1"
  by (simp_all add: roundHalfEven_def Let_def)

lemma roundHalfEven_mono:
  assumes "x \<le> y"
  shows "roundHalfEven x \<le> roundHalfEven y"
proof (cases "\<lfloor>x\<rfloor> = \<lfloor>y\<rfloor>")
  case True
  with assms have "x - of_int \<lfloor>x\<rfloor> \<le> y - of_int \<lfloor>y\<rfloor>" by simp
  with True show ?thesis by (auto simp: roundHalfEven_def Let_def)
next
  case False
  with assms have "\<lfloor>x\<rfloor> < \<lfloor>y\<rfloor>" using floor_mono [OF assms] by simp
  then have "\<lfloor>x\<rfloor> + 1 \<le> \<lfloor>y\<rfloor>" by simp
  with roundHalfEven_bounds(2) [of x] roundHalfEven_bounds(1) [of y] show ?thesis by linarith
qed

lemma pow2_powr: "pow2 e = 2 powr (of_int e)"
  by (simp add: pow2_def powr_int)

lemma pow2_pos [simp]: "0 < pow2 e"
  by (simp add: pow2_powr)

lemma pow2_nonneg [simp]: "0 \<le> pow2 e"
  using pow2_pos [of e] by linarith

lemma pow2_add: "pow2 (a + b) = pow2 a * pow2 b"
  by (simp add: pow2_powr powr_add)

lemma pow2_neq0 [simp]: "pow2 e \<noteq> 0"
  using pow2_pos [of e] by linarith

lemma pow2_top: "pow2 (e + 1) = pow2 53 * pow2 (e - 52)"
  using pow2_add [of 53 "e - 52"] by (simp add: add.commute)

lemma pow2_bottom: "pow2 e = pow2 52 * pow2 (e - 52)"
  using pow2_add [of 52 "e - 52"] by simp

lemma pow2_mono: "a \<le> b \<Longrightarrow> pow2 a \<le> pow2 b"
  by (simp add: pow2_powr)

lemma pow2_52: "pow2 52 = of_int (2 ^ 52)" and pow2_53: "pow2 53 = of_int (2 ^ 53)"
  by (simp_all add: pow2_def)

lemma expo64_ge: "- 1022 \<le> expo64 x"
  by (simp add: expo64_def)

lemma expo64_mono:
  assumes "0 < x" and "x \<le> y"
  shows "expo64 x \<le> expo64 y"
proof -
  have "log 2 \<bar>x\<bar> \<le> log 2 \<bar>y\<bar>" using assms by simp
  then have "\<lfloor>log 2 \<bar>x\<bar>\<rfloor> \<le> \<lfloor>log 2 \<bar>y\<bar>\<rfloor>" by (rule floor_mono)
  then show ?thesis by (simp add: expo64_def)
qed

lemma expo64_upper:
  assumes "0 < x"
  shows "x < pow2 (expo64 x + 1)"
proof -
  have "x < 2 powr (of_int (\<lfloor>log 2 x\<rfloor> + 1))"
    using floor_log_eq_powr_iff [of x 2 "\<lfloor>log 2 x\<rfloor>"] assms by simp
  also have "\<dots> \<le> 2 powr (of_int (expo64 x + 1))"
    using assms by (simp add: expo64_def)
  finally show ?thesis by (simp add: pow2_powr)
qed

lemma expo64_lower:
  assumes "0 < x" and "- 1022 < expo64 x"
  shows "pow2 (expo64 x) \<le> x"
proof -
  from assms(2) have e: "expo64 x = \<lfloor>log 2 x\<rfloor>" using assms(1) by (simp add: expo64_def max_def split: if_splits)
  have "2 powr (of_int \<lfloor>log 2 x\<rfloor>) \<le> x"
    using floor_log_eq_powr_iff [of x 2 "\<lfloor>log 2 x\<rfloor>"] assms(1) by simp
  then show ?thesis by (simp add: pow2_powr e)
qed

lemma expo64_binade:
  assumes "pow2 e \<le> x" and "x < pow2 (e + 1)" and "- 1022 \<le> e"
  shows "expo64 x = e"
proof -
  have x: "0 < x" using assms(1) pow2_pos [of e] by linarith
  have "\<lfloor>log 2 x\<rfloor> = e"
    using floor_log_eq_powr_iff [of x 2 e] x assms(1,2) by (simp add: pow2_powr)
  with assms(3) x show ?thesis by (simp add: expo64_def)
qed

lemma round64_binade:
  assumes "pow2 e \<le> x" and "x < pow2 (e + 1)" and "- 1022 \<le> e"
  shows "round64 x = of_int (roundHalfEven (x / pow2 (e - 52))) * pow2 (e - 52)"
proof -
  have x: "0 < x" using assms(1) pow2_pos [of e] by linarith
  with expo64_binade [OF assms] show ?thesis by (simp add: round64_def)
qed

lemma round64_0 [simp]: "round64 0 = 0"
  by (simp add: round64_def)

lemma round64_nonneg:
  assumes "0 \<le> x"
  shows "0 \<le> round64 x"
proof (cases "x = 0")
  case True
  then show ?thesis by simp
next
  case False
  with assms have "0 \<le> x / pow2 (expo64 x - 52)" by (intro divide_nonneg_nonneg) simp_all
  then have "0 \<le> \<lfloor>x / pow2 (expo64 x - 52)\<rfloor>" by simp
  with roundHalfEven_bounds(1) [of "x / pow2 (expo64 x - 52)"]
  have "0 \<le> roundHalfEven (x / pow2 (expo64 x - 52))" by linarith
  with False show ?thesis by (simp add: round64_def)
qed

text \<open>A positive number is rounded within its binade.\<close>

lemma round64_le_top:
  assumes "0 < x"
  shows "round64 x \<le> pow2 (expo64 x + 1)"
proof -
  let ?q = "pow2 (expo64 x - 52)"
  have "x / ?q \<le> pow2 (expo64 x + 1) / ?q"
    using expo64_upper [OF assms] by (intro divide_right_mono) simp_all
  also have "pow2 (expo64 x + 1) / ?q = pow2 53"
    unfolding pow2_top [of "expo64 x"] by simp
  finally have "roundHalfEven (x / ?q) \<le> roundHalfEven (of_int (2 ^ 53))"
    unfolding pow2_53 by (rule roundHalfEven_mono)
  then have "of_int (roundHalfEven (x / ?q)) \<le> pow2 53"
    unfolding pow2_53 roundHalfEven_of_int by (simp only: of_int_le_iff)
  then have "of_int (roundHalfEven (x / ?q)) * ?q \<le> pow2 53 * ?q"
    by (simp add: mult_right_mono)
  also have "pow2 53 * ?q = pow2 (expo64 x + 1)"
    by (rule pow2_top [symmetric])
  finally show ?thesis using assms by (simp add: round64_def)
qed

lemma round64_ge_bottom:
  assumes "0 < x" and "- 1022 < expo64 x"
  shows "pow2 (expo64 x) \<le> round64 x"
proof -
  let ?q = "pow2 (expo64 x - 52)"
  have "pow2 (expo64 x) / ?q \<le> x / ?q"
    using expo64_lower [OF assms] by (intro divide_right_mono) simp_all
  moreover have "pow2 (expo64 x) / ?q = pow2 52"
    by (subst pow2_bottom [of "expo64 x"]) simp
  ultimately have "roundHalfEven (of_int (2 ^ 52)) \<le> roundHalfEven (x / ?q)"
    unfolding pow2_52 by (intro roundHalfEven_mono) simp
  then have "pow2 52 \<le> of_int (roundHalfEven (x / ?q))"
    unfolding pow2_52 roundHalfEven_of_int by (simp only: of_int_le_iff)
  then have "pow2 52 * ?q \<le> of_int (roundHalfEven (x / ?q)) * ?q"
    by (simp add: mult_right_mono)
  moreover have "pow2 52 * ?q = pow2 (expo64 x)"
    by (rule pow2_bottom [symmetric])
  ultimately show ?thesis using assms by (simp add: round64_def)
qed

lemma round64_mono:
  assumes "0 \<le> x" and "x \<le> y"
  shows "round64 x \<le> round64 y"
proof (cases "x = 0")
  case True
  with assms round64_nonneg [of y] show ?thesis by simp
next
  case False
  with assms have x: "0 < x" and y: "0 < y" by simp_all
  have le: "expo64 x \<le> expo64 y" by (rule expo64_mono [OF x assms(2)])
  show ?thesis
  proof (cases "expo64 x = expo64 y")
    case True
    have "x / pow2 (expo64 y - 52) \<le> y / pow2 (expo64 y - 52)"
      using assms(2) by (intro divide_right_mono) simp_all
    then have "roundHalfEven (x / pow2 (expo64 y - 52)) \<le> roundHalfEven (y / pow2 (expo64 y - 52))"
      by (rule roundHalfEven_mono)
    then have "of_int (roundHalfEven (x / pow2 (expo64 y - 52))) * pow2 (expo64 y - 52)
        \<le> of_int (roundHalfEven (y / pow2 (expo64 y - 52))) * pow2 (expo64 y - 52)"
      by (simp add: mult_right_mono)
    with x y True show ?thesis by (simp add: round64_def)
  next
    case False
    with le have lt: "expo64 x + 1 \<le> expo64 y" by simp
    with expo64_ge [of x] have "- 1022 < expo64 y" by linarith
    from round64_ge_bottom [OF y this] have "pow2 (expo64 y) \<le> round64 y" .
    moreover have "round64 x \<le> pow2 (expo64 x + 1)" by (rule round64_le_top [OF x])
    moreover have "pow2 (expo64 x + 1) \<le> pow2 (expo64 y)" by (rule pow2_mono [OF lt])
    ultimately show ?thesis by linarith
  qed
qed

text \<open>Rounding within a given binade is a computation on integers; the decimal literals of
  the metrics update as binary64 numbers.\<close>

lemma round64_e2: "4 \<le> x \<Longrightarrow> x < 8 \<Longrightarrow> round64 x = of_int (roundHalfEven (x * 2 ^ 50)) / 2 ^ 50"
  using round64_binade [of 2 x] by (simp add: pow2_def)

lemma round64_e0: "1 \<le> x \<Longrightarrow> x < 2 \<Longrightarrow> round64 x = of_int (roundHalfEven (x * 2 ^ 52)) / 2 ^ 52"
  using round64_binade [of 0 x] by (simp add: pow2_def)

lemma round64_m1: "1/2 \<le> x \<Longrightarrow> x < 1 \<Longrightarrow> round64 x = of_int (roundHalfEven (x * 2 ^ 53)) / 2 ^ 53"
  using round64_binade [of "- 1" x] by (simp add: pow2_def)

lemma round64_m2: "1/4 \<le> x \<Longrightarrow> x < 1/2 \<Longrightarrow> round64 x = of_int (roundHalfEven (x * 2 ^ 54)) / 2 ^ 54"
  using round64_binade [of "- 2" x] by (simp add: pow2_def)

lemma round64_m3: "1/8 \<le> x \<Longrightarrow> x < 1/4 \<Longrightarrow> round64 x = of_int (roundHalfEven (x * 2 ^ 55)) / 2 ^ 55"
  using round64_binade [of "- 3" x] by (simp add: pow2_def)

lemma round64_m4: "1/16 \<le> x \<Longrightarrow> x < 1/8 \<Longrightarrow> round64 x = of_int (roundHalfEven (x * 2 ^ 56)) / 2 ^ 56"
  using round64_binade [of "- 4" x] by (simp add: pow2_def)

lemmas round64_eval = round64_e0 round64_m1 round64_m2 round64_m3 round64_m4 roundHalfEven_def Let_def

lemma lit_08: "round64 0.8 = 3602879701896397 / 4503599627370496"
  by (simp add: round64_eval)

lemma lit_02: "round64 0.2 = 3602879701896397 / 18014398509481984"
  by (simp add: round64_eval)

lemma lit_09: "round64 0.9 = 8106479329266893 / 9007199254740992"
  by (simp add: round64_eval)

lemma lit_095: "round64 0.95 = 4278419646001971 / 4503599627370496"
  by (simp add: round64_eval)

lemma lit_05: "round64 0.5 = 1 / 2"
  by (simp add: round64_eval)

lemma lit_01: "round64 0.1 = 3602879701896397 / 36028797018963968"
  by (simp add: round64_eval)

lemma lit_00: "round64 0.0 = 0"
  by simp

lemma lit_norm:
  "round64 (4/5) = 3602879701896397 / 4503599627370496"
  "round64 (1/5) = 3602879701896397 / 18014398509481984"
  "round64 (9/10) = 8106479329266893 / 9007199254740992"
  "round64 (19/20) = 4278419646001971 / 4503599627370496"
  "round64 (1/2) = 1 / 2"
  "round64 (1/10) = 3602879701896397 / 36028797018963968"
  by (simp_all add: round64_eval)

lemma round64_1: "round64 1 = 1"
  by (simp add: round64_eval)

lemma malicious_threshold64: "mul64 (real NUM_CLIENTS) (round64 MALICIOUS_RATIO) = 4"
  by (simp add: mul64_def NUM_CLIENTS_def MALICIOUS_RATIO_def lit_norm round64_e2 roundHalfEven_def)

subsection \<open>The metrics in binary64 arithmetic\<close>

lemma metrics64_eq:
  "metrics64 (acc, asr) (a, m)
     = (round64 (round64 (acc * (3602879701896397 / 4503599627370496))
          + round64 (round64 ((4278419646001971 / 4503599627370496)
              - round64 (round64 (real m / real (if a = 0 then 1 else a)) * (1 / 2)))
             * (3602879701896397 / 18014398509481984))),
        round64 (round64 (asr * (3602879701896397 / 4503599627370496))
          + round64 ((if round64 (real m / real (if a = 0 then 1 else a)) > (3602879701896397 / 36028797018963968)
                      then (8106479329266893 / 9007199254740992) else 0)
             * (3602879701896397 / 18014398509481984))))"
  by (simp only: metrics64_def Let_def prod.case div64_def sub64_def mul64_def add64_def
      lit_08 lit_02 lit_09 lit_095 lit_05 lit_01 lit_00)

lemma asrUp64_eq:
  "asrUp64 x = round64 (round64 (x * (3602879701896397 / 4503599627370496)) + (6485183463413515 / 36028797018963968))"
proof -
  have k: "round64 ((8106479329266893 / 9007199254740992) * (3602879701896397 / 18014398509481984)) = (6485183463413515 / 36028797018963968)"
    by (simp add: round64_eval)
  show ?thesis
    by (simp only: asrUp64_def add64_def mul64_def lit_08 lit_02 lit_09 k)
qed

lemma snd_metrics64_20_4: "snd (metrics64 ms (20, 4)) = asrUp64 (snd ms)"
proof -
  obtain acc asr where ms: "ms = (acc, asr)" by (cases ms)
  have i: "round64 (real 4 / real (if (20::nat) = 0 then 1 else 20)) = (3602879701896397 / 18014398509481984)"
    by (simp add: lit_norm)
  have k: "round64 ((8106479329266893 / 9007199254740992) * (3602879701896397 / 18014398509481984)) = (6485183463413515 / 36028797018963968)"
    by (simp add: round64_eval)
  have gt: "(3602879701896397 / 18014398509481984) > ((3602879701896397 / 36028797018963968) :: real)"
    by simp
  show ?thesis
    unfolding ms metrics64_eq asrUp64_eq i by (simp only: gt if_True k snd_conv)
qed

lemma snd_undefendedMetrics64: "snd (undefendedMetrics64 n) = (asrUp64 ^^ n) 0"
  by (induction n) (simp_all add: undefendedMetrics64_def snd_metrics64_20_4)

lemma reachable64_undefended: "reachable64 (undefendedMetrics64 n)"
proof (induction n)
  case 0
  show ?case unfolding undefendedMetrics64_def funpow_0 by (rule reach64_init)
next
  case (Suc n)
  have "reachable64 (metrics64 (undefendedMetrics64 n) (20, 4))"
    by (rule reach64_round [OF Suc]) (simp_all add: NUM_CLIENTS_def)
  then show ?case by (simp add: undefendedMetrics64_def)
qed

text \<open>One round keeps the accuracy between the binary64 numbers 0.1 and
  \<open>0.95 - 2 ^ - 52\<close>, and the attack success rate between 0 and \<open>0.9 + 2 ^ - 52\<close>: rounding
  is monotone, and the two upper bounds are fixed points of the update with the largest
  target.\<close>

lemma metrics64_step_bounds:
  assumes "m \<le> a"
    and "(3602879701896397 / 36028797018963968) \<le> acc" and "acc \<le> (2139209823000985 / 2251799813685248)"
    and "0 \<le> asr" and "asr \<le> (8106479329266895 / 9007199254740992)"
  shows "(3602879701896397 / 36028797018963968) \<le> fst (metrics64 (acc, asr) (a, m))"
    and "fst (metrics64 (acc, asr) (a, m)) \<le> (2139209823000985 / 2251799813685248)"
    and "0 \<le> snd (metrics64 (acc, asr) (a, m))"
    and "snd (metrics64 (acc, asr) (a, m)) \<le> (8106479329266895 / 9007199254740992)"
proof -
  let ?c8 = "3602879701896397 / 4503599627370496 :: real"
  let ?c2 = "3602879701896397 / 18014398509481984 :: real"
  let ?c9 = "8106479329266893 / 9007199254740992 :: real"
  let ?c95 = "4278419646001971 / 4503599627370496 :: real"
  let ?c1 = "3602879701896397 / 36028797018963968 :: real"
  let ?V = "2139209823000985 / 2251799813685248 :: real"
  let ?U = "8106479329266895 / 9007199254740992 :: real"
  let ?T0 = "2026619832316723 / 4503599627370496 :: real"
  let ?KL = "3242591731706757 / 36028797018963968 :: real"
  let ?AL = "1441151880758559 / 18014398509481984 :: real"
  let ?LOW = "6124895493223875 / 36028797018963968 :: real"
  let ?K95 = "3422735716801577 / 18014398509481984 :: real"
  let ?AV = "427841964600197 / 562949953421312 :: real"
  let ?K2 = "6485183463413515 / 36028797018963968 :: real"
  let ?AU = "1621295865853379 / 2251799813685248 :: real"
  let ?v40 = "8105401793339725 / 9007199254740992 :: real"
  let ?v80 = "2026619796509451 / 2251799813685248 :: real"
  let ?v120 = "8106479329247859 / 9007199254740992 :: real"
  let ?v158 = "8106479329266893 / 9007199254740992 :: real"
  let ?v159 = "4053239664633447 / 4503599627370496 :: real"
  let ?v160 = "8106479329266895 / 9007199254740992 :: real"
  define imp where "imp = round64 (real m / real (if a = 0 then 1 else a))"
  define half where "half = round64 (imp * (1 / 2))"
  define tacc where "tacc = round64 (?c95 - half)"
  define tasr where "tasr = (if imp > ?c1 then ?c9 else 0)"
  define p where "p = round64 (acc * ?c8)"
  define k where "k = round64 (tacc * ?c2)"
  define p' where "p' = round64 (asr * ?c8)"
  define k' where "k' = round64 (tasr * ?c2)"
  have eq: "metrics64 (acc, asr) (a, m) = (round64 (p + k), round64 (p' + k'))"
    unfolding metrics64_eq imp_def half_def tacc_def tasr_def p_def k_def p'_def k'_def ..
  have q0: "0 \<le> real m / real (if a = 0 then 1 else a)" by simp
  have q1: "real m / real (if a = 0 then 1 else a) \<le> 1"
    using assms(1) by (simp add: divide_le_eq_1)
  have imp0: "0 \<le> imp" unfolding imp_def by (rule round64_nonneg [OF q0])
  have imp1: "imp \<le> 1"
    using round64_mono [OF q0 q1] unfolding imp_def round64_1 .
  have half0: "0 \<le> half" unfolding half_def by (rule round64_nonneg) (use imp0 in simp)
  have "round64 (imp * (1 / 2)) \<le> round64 (1 / 2)"
    by (rule round64_mono) (use imp0 imp1 in simp_all)
  then have half1: "half \<le> 1 / 2" unfolding half_def by (simp add: lit_norm)
  have "round64 (?c95 - 1 / 2) \<le> round64 (?c95 - half)"
    by (rule round64_mono) (use half1 in simp_all)
  moreover have "round64 (?c95 - 1 / 2) = ?T0" by (simp add: round64_eval)
  ultimately have tacc0: "?T0 \<le> tacc" unfolding tacc_def by simp
  have "round64 (?c95 - half) \<le> round64 ?c95"
    by (rule round64_mono) (use half0 half1 in simp_all)
  moreover have "round64 ?c95 = ?c95" by (simp add: round64_eval)
  ultimately have tacc1: "tacc \<le> ?c95" unfolding tacc_def by simp
  have "round64 (?T0 * ?c2) \<le> round64 (tacc * ?c2)"
    by (rule round64_mono) (use tacc0 in simp_all)
  moreover have "round64 (?T0 * ?c2) = ?KL" by (simp add: round64_eval)
  ultimately have k0: "?KL \<le> k" unfolding k_def by simp
  have "round64 (tacc * ?c2) \<le> round64 (?c95 * ?c2)"
    by (rule round64_mono) (use tacc0 tacc1 in simp_all)
  moreover have "round64 (?c95 * ?c2) = ?K95" by (simp add: round64_eval)
  ultimately have k1: "k \<le> ?K95" unfolding k_def by simp
  have "round64 (?c1 * ?c8) \<le> round64 (acc * ?c8)"
    by (rule round64_mono) (use assms(2) in simp_all)
  moreover have "round64 (?c1 * ?c8) = ?AL" by (simp add: round64_eval)
  ultimately have p0: "?AL \<le> p" unfolding p_def by simp
  have "round64 (acc * ?c8) \<le> round64 (?V * ?c8)"
    by (rule round64_mono) (use assms(2,3) in simp_all)
  moreover have "round64 (?V * ?c8) = ?AV" by (simp add: round64_eval)
  ultimately have p1: "p \<le> ?AV" unfolding p_def by simp
  have "round64 (?AL + ?KL) \<le> round64 (p + k)"
    by (rule round64_mono) (use p0 k0 in simp_all)
  moreover have "round64 (?AL + ?KL) = ?LOW" by (simp add: round64_eval)
  ultimately have acc0: "?c1 \<le> round64 (p + k)" by simp
  have "round64 (p + k) \<le> round64 (?AV + ?K95)"
    by (rule round64_mono) (use p0 k0 p1 k1 in simp_all)
  moreover have "round64 (?AV + ?K95) = ?V" by (simp add: round64_eval)
  ultimately have acc1: "round64 (p + k) \<le> ?V" by simp
  have tasr0: "0 \<le> tasr" and tasr1: "tasr \<le> ?c9" by (simp_all add: tasr_def)
  have k'0: "0 \<le> k'" unfolding k'_def by (rule round64_nonneg) (use tasr0 in simp)
  have "round64 (tasr * ?c2) \<le> round64 (?c9 * ?c2)"
    by (rule round64_mono) (use tasr0 tasr1 in simp_all)
  moreover have "round64 (?c9 * ?c2) = ?K2" by (simp add: round64_eval)
  ultimately have k'1: "k' \<le> ?K2" unfolding k'_def by simp
  have p'0: "0 \<le> p'" unfolding p'_def by (rule round64_nonneg) (use assms(4) in simp)
  have "round64 (asr * ?c8) \<le> round64 (?U * ?c8)"
    by (rule round64_mono) (use assms(4,5) in simp_all)
  moreover have "round64 (?U * ?c8) = ?AU" by (simp add: round64_eval)
  ultimately have p'1: "p' \<le> ?AU" unfolding p'_def by simp
  have asr0: "0 \<le> round64 (p' + k')" by (rule round64_nonneg) (use p'0 k'0 in simp)
  have "round64 (p' + k') \<le> round64 (?AU + ?K2)"
    by (rule round64_mono) (use p'0 k'0 p'1 k'1 in simp_all)
  moreover have "round64 (?AU + ?K2) = ?U" by (simp add: round64_eval)
  ultimately have asr1: "round64 (p' + k') \<le> ?U" by simp
  show "?c1 \<le> fst (metrics64 (acc, asr) (a, m))" unfolding eq fst_conv by (rule acc0)
  show "fst (metrics64 (acc, asr) (a, m)) \<le> ?V" unfolding eq fst_conv by (rule acc1)
  show "0 \<le> snd (metrics64 (acc, asr) (a, m))" unfolding eq snd_conv by (rule asr0)
  show "snd (metrics64 (acc, asr) (a, m)) \<le> ?U" unfolding eq snd_conv by (rule asr1)
qed

lemma reachable64_bounds:
  assumes "reachable64 ms"
  shows "(3602879701896397 / 36028797018963968) \<le> fst ms \<and> fst ms \<le> (2139209823000985 / 2251799813685248)
       \<and> 0 \<le> snd ms \<and> snd ms \<le> (8106479329266895 / 9007199254740992)"
  using assms
proof (induction rule: reachable64.induct)
  case reach64_init
  show ?case unfolding lit_01 by simp
next
  case (reach64_round ms maliciousAccepted acceptedCount)
  obtain acc asr where ms: "ms = (acc, asr)" by (cases ms)
  from reach64_round.IH have b: "(3602879701896397 / 36028797018963968) \<le> acc" "acc \<le> (2139209823000985 / 2251799813685248)"
    "0 \<le> asr" "asr \<le> (8106479329266895 / 9007199254740992)"
    by (simp_all add: ms)
  from metrics64_step_bounds [OF reach64_round.hyps(2) b]
  show ?case unfolding ms by blast
qed

text \<open>In exact arithmetic the two metrics stay strictly below the largest targets.\<close>

lemma reachable_metrics:
  assumes "reachable td s"
  shows "0.1 \<le> globalAccuracy s \<and> globalAccuracy s < 0.95
       \<and> 0 \<le> backdoorSuccessRate s \<and> backdoorSuccessRate s < 0.9"
  using assms
proof (induction rule: reachable.induct)
  case reach_init
  show ?case by (simp add: initialState_def)
next
  case (reach_round s cfg rnd s')
  from reach_round.hyps(2) obtain ncs p where s': "s' = finishRound cfg td s ncs"
    by (rule runRound_SomeD)
  define aC where "aC = length (filter isAccepted (clients s'))"
  define mA where "mA = length (filter (\<lambda>c. isAccepted c \<and> type_client c = malicious) (clients s'))"
  define impact where "impact = real mA / real (max aC 1)"
  have "mA = length (filter (\<lambda>c. type_client c = malicious) (filter isAccepted (clients s')))"
    by (simp add: mA_def conj_commute)
  then have "mA \<le> aC" unfolding aC_def by (simp only: length_filter_le)
  then have i: "0 \<le> impact" "impact \<le> 1"
    unfolding impact_def by (simp_all add: divide_le_eq_1 max_def)
  have acc: "globalAccuracy s' = 0.8 * globalAccuracy s + 0.2 * (0.95 - impact * 0.5)"
    and asr: "backdoorSuccessRate s'
        = 0.8 * backdoorSuccessRate s + 0.2 * (if impact > 0.1 then 0.9 else 0)"
    unfolding impact_def mA_def aC_def s' by (rule metrics_finishRound)+
  from reach_round.IH i show ?case unfolding acc asr by (auto simp: algebra_simps)
qed

subsection \<open>The attack success rate of an undefended run\<close>

lemma funpow_numeral_apply: "((f :: 'a \<Rightarrow> 'a) ^^ numeral k) x = f ((f ^^ pred_numeral k) x)"
  by (simp add: numeral_eq_Suc)

lemma funpow_1_apply: "((f :: 'a \<Rightarrow> 'a) ^^ 1) x = f x"
  by simp

lemma asr_rounds_1_40: "(asrUp64 ^^ 40) 0 = (8105401793339725 / 9007199254740992)"
  by (simp add: funpow_numeral_apply funpow_1_apply asrUp64_eq round64_eval)

lemma asr_rounds_41_80: "(asrUp64 ^^ 40) (8105401793339725 / 9007199254740992) = (2026619796509451 / 2251799813685248)"
  by (simp add: funpow_numeral_apply funpow_1_apply asrUp64_eq round64_eval)

lemma asr_rounds_81_120: "(asrUp64 ^^ 40) (2026619796509451 / 2251799813685248) = (8106479329247859 / 9007199254740992)"
  by (simp add: funpow_numeral_apply funpow_1_apply asrUp64_eq round64_eval)

lemma asr_rounds_121_158: "(asrUp64 ^^ 38) (8106479329247859 / 9007199254740992) = (8106479329266893 / 9007199254740992)"
  by (simp add: funpow_numeral_apply funpow_1_apply asrUp64_eq round64_eval)

lemma asr_rounds_159_160: "(asrUp64 ^^ 2) (8106479329266893 / 9007199254740992) = (8106479329266895 / 9007199254740992)"
  by (simp add: funpow_numeral_apply funpow_1_apply asrUp64_eq round64_eval)

lemma asr_round_158: "snd (undefendedMetrics64 158) = (8106479329266893 / 9007199254740992)"
proof -
  have n: "(158::nat) = 38 + (40 + (40 + 40))" by simp
  have "(asrUp64 ^^ 158) 0 = (asrUp64 ^^ 38) ((asrUp64 ^^ 40) ((asrUp64 ^^ 40) ((asrUp64 ^^ 40) 0)))"
    unfolding n funpow_add o_apply ..
  then show ?thesis
    unfolding snd_undefendedMetrics64 asr_rounds_1_40 asr_rounds_41_80 asr_rounds_81_120
      asr_rounds_121_158 .
qed

lemma asr_round_160: "snd (undefendedMetrics64 160) = (8106479329266895 / 9007199254740992)"
proof -
  have n: "(160::nat) = 2 + 158" by simp
  have "(asrUp64 ^^ 160) 0 = (asrUp64 ^^ 2) ((asrUp64 ^^ 158) 0)"
    unfolding n funpow_add o_apply ..
  then show ?thesis
    unfolding snd_undefendedMetrics64 asr_round_158 [unfolded snd_undefendedMetrics64]
      asr_rounds_159_160 .
qed

text \<open>The counters of a round of the engine are those that \<open>reachable64\<close> allows, and in
  an undefended round whose draws are all 1/4 all 20 clients are accepted, whatever the
  previous state is.\<close>

lemma round_counts:
  assumes "runRound cfg td rnd s = Some s'"
    and "countAccepted (clients s') = (acceptedCount, maliciousAccepted)"
  shows "maliciousAccepted \<le> acceptedCount" and "acceptedCount \<le> NUM_CLIENTS"
proof -
  from assms(2) have a: "acceptedCount = length (filter isAccepted (clients s'))"
    and m: "maliciousAccepted
          = length (filter (\<lambda>c. type_client c = malicious) (filter isAccepted (clients s')))"
    by (simp_all add: countAccepted_eq conj_commute)
  show "maliciousAccepted \<le> acceptedCount" unfolding a m by (rule length_filter_le)
  have "acceptedCount \<le> length (clients s')" unfolding a by (rule length_filter_le)
  then show "acceptedCount \<le> NUM_CLIENTS" by (simp add: runRound_clients_length [OF assms(1)])
qed

lemma undefended_counts:
  assumes "runRound undefendedConfig sampleTrueGradient (constRandom (1/4)) s = Some s'"
  shows "countAccepted (clients s') = (20, 4)"
proof -
  have z: "nonIIDLevel undefendedConfig = 0"
    and a: "\<not> useStiffnessMask undefendedConfig"
    and b: "\<not> useLayerWeightedClustering undefendedConfig"
    by (simp_all add: undefendedConfig_def iidConfig_def defaultConfig_def)
  have v: "- ((1.5 - attackStealth undefendedConfig) * 5) = - 4.5"
    by (simp add: undefendedConfig_def iidConfig_def defaultConfig_def)
  from newClients_quarter [OF z v] obtain q where
    nc: "newClients undefendedConfig sampleTrueGradient (constRandom (1/4)) 0
       = Some (sampleClients (- 4.5) 0 True, q)" ..
  from assms obtain ncs p where
    nc': "newClients undefendedConfig sampleTrueGradient (constRandom (1/4)) 0 = Some (ncs, p)"
    and s': "s' = finishRound undefendedConfig sampleTrueGradient s ncs"
    by (rule runRound_SomeD)
  from nc nc' have ncs: "ncs = sampleClients (- 4.5) 0 True" by simp
  have "sqrt (5 * (4.5 * 4.5)) \<le> (25::real)" by (rule real_le_lsqrt) simp_all
  then have sq: "\<not> sqrt (5 * (4.5 * 4.5)) > (25::real)" by simp
  have pc: "processClient undefendedConfig fim sampleTrueGradient c = c"
    if "c \<in> set (sampleClients (- 4.5) 0 True)" for fim c
    using that sq unfolding processClient_eq
    by (auto simp: a b sampleClients_def mag_trigger mag_zero)
  have "clients s' = map (processClient undefendedConfig
      (updateFIM undefendedConfig (globalFIM s)) sampleTrueGradient) (sampleClients (- 4.5) 0 True)"
    unfolding s' ncs by (rule clients_finishRound)
  also have "\<dots> = map (\<lambda>c. c) (sampleClients (- 4.5) 0 True)"
    by (rule map_cong [OF refl]) (rule pc)
  finally have "clients s' = sampleClients (- 4.5) 0 True" by simp
  then show ?thesis by (simp add: countAccepted_sampleClients)
qed

lemma undefended_run_counts:
  assumes "runRounds sampleTrueGradient (replicate n (undefendedConfig, constRandom (1/4))) s0
      = Some ss"
    and "s \<in> set ss"
  shows "countAccepted (clients s) = (20, 4)"
  using assms
proof (induction n arbitrary: s0 ss)
  case 0
  then show ?case by simp
next
  case (Suc n)
  from Suc.prems(1) have
    "runRounds sampleTrueGradient
       ((undefendedConfig, constRandom (1/4)) # replicate n (undefendedConfig, constRandom (1/4))) s0
     = Some ss"
    by simp
  then obtain s1 ss' where
    r: "runRound undefendedConfig sampleTrueGradient (constRandom (1/4)) s0 = Some s1"
    and rs: "runRounds sampleTrueGradient (replicate n (undefendedConfig, constRandom (1/4))) s1
        = Some ss'"
    and ss: "ss = s1 # ss'"
    by (rule runRounds_ConsD)
  from Suc.prems(2) ss have "s = s1 \<or> s \<in> set ss'" by simp
  then show ?case
  proof
    assume "s = s1"
    with undefended_counts [OF r] show ?thesis by simp
  next
    assume "s \<in> set ss'"
    with rs show ?thesis by (rule Suc.IH)
  qed
qed

section \<open>The claims of the specification\<close>

subsection \<open>Mechanism A: the stiffness conflict\<close>

text \<open>
  Claim C1, as the specification states it: with the stiffness mask enabled, a client is
  marked rejected exactly when its stiffness score exceeds the threshold. In the round of
  \<open>loudConfig\<close> (the mask, the weighted clustering and the momentum FIM enabled, stealth 0,
  non-IID level 0) from the initial state with every draw 1/4, client 0 has the score
  \<open>9.5 * 7.5 / 20 = 3.5625\<close>, which does not exceed the threshold 12, and yet the client is
  rejected: Mechanism B rejects it, its weighted distance being \<open>534.375 > 500\<close>.
\<close>

theorem stiffness_only_verdict_counterexample:
  "runRound loudConfig sampleTrueGradient (constRandom (1/4)) initialState = Some loudState
   \<and> useStiffnessMask loudConfig \<and> useMomentumFIM loudConfig
   \<and> hd (clients loudState) \<in> set (clients loudState)
   \<and> (\<Sum>j<VECTOR_DIM. globalFIM loudState ! j * \<bar>gradient (hd (clients loudState)) ! j\<bar>)
        / real VECTOR_DIM = 3.5625
   \<and> stiffnessViolationScore (hd (clients loudState)) = 3.5625
   \<and> 12 * (1 + nonIIDLevel loudConfig) = 12
   \<and> \<not> stiffnessViolationScore (hd (clients loudState)) > 12 * (1 + nonIIDLevel loudConfig)
   \<and> \<not> isAccepted (hd (clients loudState))
   \<and> weightedDist loudConfig (globalFIM loudState) sampleTrueGradient
        (gradient (hd (clients loudState))) = 534.375
   \<and> (\<not> isAccepted (hd (clients loudState)))
        \<noteq> (stiffnessViolationScore (hd (clients loudState)) > 12 * (1 + nonIIDLevel loudConfig))"
proof -
  have on: "useStiffnessMask loudConfig" "useMomentumFIM loudConfig"
    "useLayerWeightedClustering loudConfig"
    and z: "nonIIDLevel loudConfig = 0"
    by (simp_all add: loudConfig_def iidConfig_def defaultConfig_def)
  have c: "hd (clients loudState) \<in> set (clients loudState)"
    by (simp add: loudState_def hd_in_sampleClients)
  have g: "gradient (hd (clients loudState)) = replicate 5 (- 7.5) @ replicate 15 0"
    and f: "globalFIM loudState = replicate 5 1.9 @ replicate 15 1"
    and a: "\<not> isAccepted (hd (clients loudState))"
    and v: "stiffnessViolationScore (hd (clients loudState)) = 3.5625"
    by (simp_all add: loudState_def hd_sampleClients)
  have "(\<Sum>j<VECTOR_DIM. globalFIM loudState ! j * \<bar>gradient (hd (clients loudState)) ! j\<bar>)
      = stiffnessSum (globalFIM loudState) (gradient (hd (clients loudState)))"
    unfolding stiffnessSum_eq g by (simp add: VECTOR_DIM_def)
  also have "\<dots> = 9.5 * 7.5" unfolding g f stiffness_trigger by simp
  finally have s: "(\<Sum>j<VECTOR_DIM. globalFIM loudState ! j * \<bar>gradient (hd (clients loudState)) ! j\<bar>)
      / real VECTOR_DIM = 3.5625"
    by (simp add: VECTOR_DIM_def)
  have d: "weightedDist loudConfig (globalFIM loudState) sampleTrueGradient
      (gradient (hd (clients loudState))) = 534.375"
    unfolding g f dist_trigger [OF on(3)] by simp
  have t: "12 * (1 + nonIIDLevel loudConfig) = 12" by (simp add: z)
  have n: "\<not> stiffnessViolationScore (hd (clients loudState)) > 12 * (1 + nonIIDLevel loudConfig)"
    unfolding v t by simp
  from loud_round on(1,2) c s v t n a d show ?thesis by blast
qed

text \<open>
  Claim C1, amended. In a round with the stiffness mask enabled, every client \<open>c\<close> of the
  new state carries the score \<open>(\<Sum>j<D. importance[j] * |gradient[j]|) / D\<close>, computed with
  the importance vector of the new state (the one this round has updated), and Mechanism A
  flags the client exactly when this score exceeds \<open>12 * (1 + nonIIDLevel)\<close> with the
  momentum FIM enabled, \<open>15 * (1 + nonIIDLevel)\<close> without it. The client is rejected
  exactly when Mechanism A flags it or Mechanism B, if it is enabled, does: the weighted
  distance of its gradient exceeds \<open>500 * (1 + nonIIDLevel)\<close>.
\<close>

theorem stiffness_mask_verdict:
  assumes "runRound cfg td rnd s = Some s'"
    and "useStiffnessMask cfg"
    and "length (globalFIM s) = VECTOR_DIM"
    and "c \<in> set (clients s')"
    and "length td = VECTOR_DIM"
  defines "score \<equiv> (\<Sum>j<VECTOR_DIM. globalFIM s' ! j * \<bar>gradient c ! j\<bar>) / real VECTOR_DIM"
  defines "threshold \<equiv> (if useMomentumFIM cfg then 12 else 15) * (1 + nonIIDLevel cfg)"
  shows "globalFIM s' = updateFIM cfg (globalFIM s) \<and> length (globalFIM s') = VECTOR_DIM
       \<and> length (gradient c) = VECTOR_DIM
       \<and> stiffnessViolationScore c = score
       \<and> mechanismA cfg (globalFIM s') (gradient c) (False, 0) = (score > threshold, score)
       \<and> (isAccepted c \<longleftrightarrow>
            \<not> score > threshold
            \<and> \<not> (useLayerWeightedClustering cfg
                  \<and> weightedDist cfg (globalFIM s') td (gradient c) > 500 * (1 + nonIIDLevel cfg)))"
proof -
  note cl = runRound_clients [OF assms(1) assms(4)]
  have fim: "globalFIM s' = updateFIM cfg (globalFIM s)" by (rule runRound_globalFIM [OF assms(1)])
  have sc: "stiffnessSum (globalFIM s') (gradient c) / real VECTOR_DIM = score"
    by (simp add: score_def stiffnessSum_eq cl(1))
  have A: "mechanismA cfg (globalFIM s') (gradient c) (False, 0) = (score > threshold, score)"
    unfolding mechanismA_eq sc threshold_def using assms(2) by simp
  have acc: "isAccepted c \<longleftrightarrow>
            \<not> score > threshold
            \<and> \<not> (useLayerWeightedClustering cfg
                  \<and> weightedDist cfg (globalFIM s') td (gradient c) > 500 * (1 + nonIIDLevel cfg))"
    unfolding cl(3) sc threshold_def using assms(2) by auto
  have "stiffnessViolationScore c = score" unfolding cl(2) sc using assms(2) by simp
  with fim A acc cl(1) assms(3) show ?thesis by (simp add: length_updateFIM)
qed

theorem stiffness_mask_verdict_witness:
  fixes c
  defines "c \<equiv> hd (clients sampleState)"
  shows "runRound iidConfig sampleTrueGradient (constRandom (1/4)) initialState = Some sampleState
       \<and> useStiffnessMask iidConfig
       \<and> length (globalFIM initialState) = VECTOR_DIM
       \<and> c \<in> set (clients sampleState)
       \<and> length sampleTrueGradient = VECTOR_DIM
       \<and> stiffnessViolationScore c
           = (\<Sum>j<VECTOR_DIM. globalFIM sampleState ! j * \<bar>gradient c ! j\<bar>) / real VECTOR_DIM
       \<and> stiffnessViolationScore c = 2.1375
       \<and> mechanismA iidConfig (globalFIM sampleState) (gradient c) (False, 0) = (False, 2.1375)
       \<and> isAccepted c"
proof -
  have m: "useStiffnessMask iidConfig" by (simp add: iidConfig_def defaultConfig_def)
  have l: "length (globalFIM initialState) = VECTOR_DIM" by (simp add: initialState_def)
  have c: "c \<in> set (clients sampleState)"
    unfolding c_def by (simp add: sampleState_def hd_in_sampleClients)
  have v: "stiffnessViolationScore c = 2.1375" and a: "isAccepted c"
    unfolding c_def by (simp_all add: sampleState_def hd_sampleClients)
  have d: "length sampleTrueGradient = VECTOR_DIM" by (simp add: sampleTrueGradient_def)
  note t = stiffness_mask_verdict [OF sample_round m l c d]
  from t have e: "stiffnessViolationScore c
      = (\<Sum>j<VECTOR_DIM. globalFIM sampleState ! j * \<bar>gradient c ! j\<bar>) / real VECTOR_DIM"
    by blast
  from t have "mechanismA iidConfig (globalFIM sampleState) (gradient c) (False, 0)
      = ((\<Sum>j<VECTOR_DIM. globalFIM sampleState ! j * \<bar>gradient c ! j\<bar>) / real VECTOR_DIM
           > (if useMomentumFIM iidConfig then 12 else 15) * (1 + nonIIDLevel iidConfig),
         (\<Sum>j<VECTOR_DIM. globalFIM sampleState ! j * \<bar>gradient c ! j\<bar>) / real VECTOR_DIM)"
    by blast
  then have A: "mechanismA iidConfig (globalFIM sampleState) (gradient c) (False, 0) = (False, 2.1375)"
    unfolding e [symmetric] v by (simp add: iidConfig_def defaultConfig_def)
  from sample_round m l c d e v A a show ?thesis by blast
qed

subsection \<open>Mechanism B: importance-weighted clustering\<close>

text \<open>
  Claim C2. Mechanism B changes the detection flag only when the clustering toggle is
  enabled and the flag is not yet set; it then sets the flag exactly when
  \<open>(\<Sum>j<D. importance[j] * (gradient[j] - trueDirection[j])\<^sup>2) > 500 * (1 + nonIIDLevel)\<close>
  (the weight is the importance, since the toggle is enabled on this path). A flag set by
  Mechanism A stays set: a client that Mechanism A rejects is not accepted.
\<close>

theorem weighted_clustering_verdict:
  assumes "runRound cfg td rnd s = Some s'"
    and "length (globalFIM s) = VECTOR_DIM"
    and "length td = VECTOR_DIM"
    and "c \<in> set (clients s')"
  defines "rejectedByA \<equiv> useStiffnessMask cfg \<and>
      (\<Sum>j<VECTOR_DIM. globalFIM s' ! j * \<bar>gradient c ! j\<bar>) / real VECTOR_DIM
        > (if useMomentumFIM cfg then 12 else 15) * (1 + nonIIDLevel cfg)"
  defines "wdist \<equiv> (\<Sum>j<VECTOR_DIM. globalFIM s' ! j * (gradient c ! j - td ! j)\<^sup>2)"
  shows "length (globalFIM s') = VECTOR_DIM \<and> length (gradient c) = VECTOR_DIM
       \<and> fst (mechanismA cfg (globalFIM s') (gradient c) (False, 0)) = rejectedByA
       \<and> (\<forall>flag. mechanismB cfg (globalFIM s') td (gradient c) flag
             = (if useLayerWeightedClustering cfg \<and> \<not> flag
                then wdist > 500 * (1 + nonIIDLevel cfg) else flag))
       \<and> (isAccepted c \<longleftrightarrow>
            (if useLayerWeightedClustering cfg
             then \<not> rejectedByA \<and> \<not> wdist > 500 * (1 + nonIIDLevel cfg)
             else if useStiffnessMask cfg then \<not> rejectedByA
             else \<not> mag (gradient c) > 25))"
proof -
  note cl = runRound_clients [OF assms(1) assms(4)]
  have fim: "length (globalFIM s') = VECTOR_DIM"
    by (simp add: runRound_globalFIM [OF assms(1)] length_updateFIM assms(2))
  have sc: "stiffnessSum (globalFIM s') (gradient c) / real VECTOR_DIM
      = (\<Sum>j<VECTOR_DIM. globalFIM s' ! j * \<bar>gradient c ! j\<bar>) / real VECTOR_DIM"
    by (simp add: stiffnessSum_eq cl(1))
  have A: "fst (mechanismA cfg (globalFIM s') (gradient c) (False, 0)) = rejectedByA"
    unfolding mechanismA_eq sc rejectedByA_def by simp
  have B: "mechanismB cfg (globalFIM s') td (gradient c) flag
             = (if useLayerWeightedClustering cfg \<and> \<not> flag
                then wdist > 500 * (1 + nonIIDLevel cfg) else flag)" for flag
    unfolding mechanismB_eq wdist_def by (auto simp: weightedDist_enabled)
  have acc: "isAccepted c \<longleftrightarrow>
            (if useLayerWeightedClustering cfg
             then \<not> rejectedByA \<and> \<not> wdist > 500 * (1 + nonIIDLevel cfg)
             else if useStiffnessMask cfg then \<not> rejectedByA
             else \<not> mag (gradient c) > 25)"
    unfolding cl(3) sc rejectedByA_def wdist_def by (auto simp: weightedDist_enabled)
  from fim cl(1) A B acc show ?thesis by blast
qed

theorem weighted_clustering_verdict_witness:
  fixes c
  defines "c \<equiv> hd (clients loudState)"
  shows "runRound loudConfig sampleTrueGradient (constRandom (1/4)) initialState = Some loudState
       \<and> length (globalFIM initialState) = VECTOR_DIM
       \<and> length sampleTrueGradient = VECTOR_DIM
       \<and> c \<in> set (clients loudState)
       \<and> fst (mechanismA loudConfig (globalFIM loudState) (gradient c) (False, 0)) = False
       \<and> (\<Sum>j<VECTOR_DIM. globalFIM loudState ! j * (gradient c ! j - sampleTrueGradient ! j)\<^sup>2)
           = 534.375
       \<and> mechanismB loudConfig (globalFIM loudState) sampleTrueGradient (gradient c) False = True
       \<and> mechanismB loudConfig (globalFIM loudState) sampleTrueGradient (gradient c) True = True
       \<and> isAccepted c = False"
proof -
  have l: "length (globalFIM initialState) = VECTOR_DIM" by (simp add: initialState_def)
  have d: "length sampleTrueGradient = VECTOR_DIM" by (simp add: sampleTrueGradient_def)
  have c: "c \<in> set (clients loudState)"
    unfolding c_def by (simp add: loudState_def hd_in_sampleClients)
  have on: "useLayerWeightedClustering loudConfig" and z: "nonIIDLevel loudConfig = 0"
    by (simp_all add: loudConfig_def iidConfig_def defaultConfig_def)
  have g: "gradient c = replicate 5 (- 7.5) @ replicate 15 0"
    and f: "globalFIM loudState = replicate 5 1.9 @ replicate 15 1"
    and a: "isAccepted c = False"
    unfolding c_def by (simp_all add: loudState_def hd_sampleClients)
  have "(\<Sum>j<VECTOR_DIM. globalFIM loudState ! j * (gradient c ! j - sampleTrueGradient ! j)\<^sup>2)
      = weightedDist loudConfig (globalFIM loudState) sampleTrueGradient (gradient c)"
    by (simp add: weightedDist_enabled [OF on])
  also have "\<dots> = 534.375" unfolding g f dist_trigger [OF on] by simp
  finally have w: "(\<Sum>j<VECTOR_DIM. globalFIM loudState ! j * (gradient c ! j - sampleTrueGradient ! j)\<^sup>2)
      = 534.375" .
  note t = weighted_clustering_verdict [OF loud_round l d c]
  from t have A: "fst (mechanismA loudConfig (globalFIM loudState) (gradient c) (False, 0))
      = (useStiffnessMask loudConfig \<and>
         (\<Sum>j<VECTOR_DIM. globalFIM loudState ! j * \<bar>gradient c ! j\<bar>) / real VECTOR_DIM
           > (if useMomentumFIM loudConfig then 12 else 15) * (1 + nonIIDLevel loudConfig))"
    by blast
  have s: "(\<Sum>j<VECTOR_DIM. globalFIM loudState ! j * \<bar>gradient c ! j\<bar>) = 71.25"
    using stiffnessSum_eq [of "globalFIM loudState" "gradient c"]
    unfolding g f stiffness_trigger by (simp add: VECTOR_DIM_def)
  have A': "fst (mechanismA loudConfig (globalFIM loudState) (gradient c) (False, 0)) = False"
    unfolding A s by (simp add: loudConfig_def iidConfig_def defaultConfig_def VECTOR_DIM_def)
  from t have B: "mechanismB loudConfig (globalFIM loudState) sampleTrueGradient (gradient c) flag
      = (if useLayerWeightedClustering loudConfig \<and> \<not> flag
         then (\<Sum>j<VECTOR_DIM. globalFIM loudState ! j * (gradient c ! j - sampleTrueGradient ! j)\<^sup>2)
                > 500 * (1 + nonIIDLevel loudConfig)
         else flag)" for flag
    by blast
  have B0: "mechanismB loudConfig (globalFIM loudState) sampleTrueGradient (gradient c) False = True"
    and B1: "mechanismB loudConfig (globalFIM loudState) sampleTrueGradient (gradient c) True = True"
    unfolding B w by (simp_all add: on z)
  from loud_round l d c A' w B0 B1 a show ?thesis by blast
qed

subsection \<open>The momentum update of the importance vector\<close>

text \<open>
  Claim C3. With the momentum FIM enabled, a round replaces the importance vector by
  \<open>0.9 * importance[j] + 0.1 * ideal[j]\<close> at every coordinate \<open>j < D\<close>, where
  \<open>ideal[j]\<close> is 10 for \<open>j < 5\<close> and 1 otherwise; with it disabled, the importance
  vector of the new state is that of the previous one.
\<close>

theorem momentum_fim_update:
  assumes "runRound cfg td rnd s = Some s'"
    and "length (globalFIM s) = VECTOR_DIM"
  shows "globalFIM s'
     = (if useMomentumFIM cfg
        then map (\<lambda>j. 0.9 * globalFIM s ! j + 0.1 * (if j < 5 then 10.0 else 1.0)) [0..<VECTOR_DIM]
        else globalFIM s)"
  unfolding runRound_globalFIM [OF assms(1)] updateFIM_eq [OF assms(2)] by simp

theorem momentum_fim_update_witness:
  fixes s2
  defines "s2 \<equiv> the (runRound (iidConfig\<lparr> useMomentumFIM := False \<rparr>) sampleTrueGradient
                         (constRandom (1/2)) sampleState)"
  shows "runRound iidConfig sampleTrueGradient (constRandom (1/4)) initialState = Some sampleState
       \<and> length (globalFIM initialState) = VECTOR_DIM
       \<and> useMomentumFIM iidConfig
       \<and> globalFIM sampleState
           = map (\<lambda>j. 0.9 * globalFIM initialState ! j + 0.1 * (if j < 5 then 10.0 else 1.0))
               [0..<VECTOR_DIM]
       \<and> globalFIM sampleState = replicate 5 1.9 @ replicate 15 1
       \<and> runRound (iidConfig\<lparr> useMomentumFIM := False \<rparr>) sampleTrueGradient
            (constRandom (1/2)) sampleState = Some s2
       \<and> length (globalFIM sampleState) = VECTOR_DIM
       \<and> globalFIM s2 = globalFIM sampleState"
proof -
  have l0: "length (globalFIM initialState) = VECTOR_DIM" by (simp add: initialState_def)
  have on: "useMomentumFIM iidConfig" by (simp add: iidConfig_def defaultConfig_def)
  have f1: "globalFIM sampleState
           = map (\<lambda>j. 0.9 * globalFIM initialState ! j + 0.1 * (if j < 5 then 10.0 else 1.0))
               [0..<VECTOR_DIM]"
    using momentum_fim_update [OF sample_round l0] on by simp
  have v1: "globalFIM sampleState = replicate 5 1.9 @ replicate 15 1"
    by (simp add: sampleState_def)
  have r2: "runRound (iidConfig\<lparr> useMomentumFIM := False \<rparr>) sampleTrueGradient
            (constRandom (1/2)) sampleState = Some s2"
    unfolding s2_def by (rule runRound_sample) simp
  have l1: "length (globalFIM sampleState) = VECTOR_DIM" by (simp add: v1 VECTOR_DIM_def)
  have f2: "globalFIM s2 = globalFIM sampleState"
    using momentum_fim_update [OF r2 l1] by simp
  from sample_round l0 on f1 v1 r2 l1 f2 show ?thesis by blast
qed

subsection \<open>The bound on the importance vector\<close>

text \<open>
  Claim C4. In every state the engine reaches from the initial state (importance vector all
  ones) by any number of rounds, whatever the configuration of each round, the importance
  vector has \<open>D\<close> coordinates and each of them lies between 0 and 10.
\<close>

theorem importance_bounds:
  assumes "reachable td s"
  shows "length (globalFIM s) = VECTOR_DIM
       \<and> (\<forall>j<VECTOR_DIM. 0 \<le> globalFIM s ! j \<and> globalFIM s ! j \<le> 10)"
  using assms
proof (induction rule: reachable.induct)
  case reach_init
  show ?case by (simp add: initialState_def)
next
  case (reach_round s cfg rnd s')
  have fim: "globalFIM s' = updateFIM cfg (globalFIM s)"
    by (rule runRound_globalFIM) (rule reach_round.hyps(2))
  from reach_round.IH have len: "length (globalFIM s) = VECTOR_DIM"
    and bnd: "\<And>j. j < VECTOR_DIM \<Longrightarrow> 0 \<le> globalFIM s ! j \<and> globalFIM s ! j \<le> 10"
    by simp_all
  show ?case
    unfolding fim using updateFIM_bounds [OF len bnd] by (simp add: length_updateFIM len)
qed

theorem importance_bounds_witness:
  fixes s2
  defines "s2 \<equiv> the (runRound defaultConfig sampleTrueGradient (constRandom (1/2)) sampleState)"
  shows "reachable sampleTrueGradient sampleState
       \<and> globalFIM sampleState ! 0 = 1.9
       \<and> 0 \<le> globalFIM sampleState ! 0 \<and> globalFIM sampleState ! 0 \<le> 10
       \<and> reachable sampleTrueGradient s2
       \<and> length (globalFIM s2) = VECTOR_DIM
       \<and> 0 \<le> globalFIM s2 ! 0 \<and> globalFIM s2 ! 0 \<le> 10
       \<and> 0 \<le> globalFIM s2 ! 19 \<and> globalFIM s2 ! 19 \<le> 10"
proof -
  have r1: "reachable sampleTrueGradient sampleState"
    by (rule reach_round [OF reach_init sample_round])
  have "runRound defaultConfig sampleTrueGradient (constRandom (1/2)) sampleState = Some s2"
    unfolding s2_def by (rule runRound_sample) simp
  then have r2: "reachable sampleTrueGradient s2" by (rule reach_round [OF r1])
  have v: "globalFIM sampleState ! 0 = 1.9" by (simp add: sampleState_def numeral_eq_Suc)
  from importance_bounds [OF r1] have b1: "0 \<le> globalFIM sampleState ! 0 \<and> globalFIM sampleState ! 0 \<le> 10"
    by (simp add: VECTOR_DIM_def)
  from importance_bounds [OF r2] have b2: "length (globalFIM s2) = VECTOR_DIM
       \<and> 0 \<le> globalFIM s2 ! 0 \<and> globalFIM s2 ! 0 \<le> 10
       \<and> 0 \<le> globalFIM s2 ! 19 \<and> globalFIM s2 ! 19 \<le> 10"
    by (simp add: VECTOR_DIM_def)
  from r1 v b1 r2 b2 show ?thesis by blast
qed

subsection \<open>Aggregation and metrics\<close>

text \<open>
  Claim C5. With \<open>acceptedCount\<close> the number of accepted clients of the round and
  \<open>maliciousAccepted\<close> the number of accepted malicious ones, the attack impact is
  \<open>maliciousAccepted / max acceptedCount 1\<close> (the divisor is never zero), the new accuracy
  is \<open>0.8 * previous + 0.2 * (0.95 - attackImpact * 0.5)\<close> and the new attack success
  rate is \<open>0.8 * previous + 0.2 * target\<close> with target 0.9 when the attack impact exceeds
  0.1 and 0 otherwise.
\<close>

theorem metrics_update:
  assumes "runRound cfg td rnd s = Some s'"
  defines "acceptedCount \<equiv> length (filter isAccepted (clients s'))"
  defines "maliciousAccepted \<equiv>
     length (filter (\<lambda>c. isAccepted c \<and> type_client c = malicious) (clients s'))"
  defines "attackImpact \<equiv> real maliciousAccepted / real (max acceptedCount 1)"
  shows "countAccepted (clients s') = (acceptedCount, maliciousAccepted)
       \<and> max acceptedCount 1 \<noteq> 0
       \<and> globalAccuracy s' = 0.8 * globalAccuracy s + 0.2 * (0.95 - attackImpact * 0.5)
       \<and> backdoorSuccessRate s'
           = 0.8 * backdoorSuccessRate s + 0.2 * (if attackImpact > 0.1 then 0.9 else 0.0)"
proof -
  from assms(1) obtain ncs p where s': "s' = finishRound cfg td s ncs"
    by (rule runRound_SomeD)
  show ?thesis
    unfolding attackImpact_def maliciousAccepted_def acceptedCount_def s'
    using metrics_finishRound [of cfg td s ncs] by (simp add: countAccepted_eq)
qed

theorem metrics_update_witness:
  "runRound iidConfig sampleTrueGradient (constRandom (1/4)) initialState = Some sampleState
   \<and> length (filter isAccepted (clients sampleState)) = 20
   \<and> length (filter (\<lambda>c. isAccepted c \<and> type_client c = malicious) (clients sampleState)) = 4
   \<and> globalAccuracy sampleState = 0.8 * globalAccuracy initialState + 0.2 * (0.95 - 4 / 20 * 0.5)
   \<and> backdoorSuccessRate sampleState = 0.8 * backdoorSuccessRate initialState + 0.2 * 0.9
   \<and> runRound loudConfig sampleTrueGradient (constRandom (1/4)) initialState = Some loudState
   \<and> length (filter isAccepted (clients loudState)) = 16
   \<and> length (filter (\<lambda>c. isAccepted c \<and> type_client c = malicious) (clients loudState)) = 0
   \<and> globalAccuracy loudState = 0.8 * globalAccuracy initialState + 0.2 * (0.95 - 0 / 16 * 0.5)
   \<and> backdoorSuccessRate loudState = 0.8 * backdoorSuccessRate initialState + 0.2 * 0"
proof -
  note t1 = metrics_update [OF sample_round]
  from t1 have "countAccepted (clients sampleState)
      = (length (filter isAccepted (clients sampleState)),
         length (filter (\<lambda>c. isAccepted c \<and> type_client c = malicious) (clients sampleState)))"
    by blast
  then have c1: "length (filter isAccepted (clients sampleState)) = 20"
    "length (filter (\<lambda>c. isAccepted c \<and> type_client c = malicious) (clients sampleState)) = 4"
    by (simp_all add: sampleState_def countAccepted_sampleClients)
  from t1 have m1: "globalAccuracy sampleState = 0.8 * globalAccuracy initialState + 0.2 * (0.95 - 4 / 20 * 0.5)"
    "backdoorSuccessRate sampleState = 0.8 * backdoorSuccessRate initialState + 0.2 * 0.9"
    unfolding c1 by simp_all
  note t2 = metrics_update [OF loud_round]
  from t2 have "countAccepted (clients loudState)
      = (length (filter isAccepted (clients loudState)),
         length (filter (\<lambda>c. isAccepted c \<and> type_client c = malicious) (clients loudState)))"
    by blast
  then have c2: "length (filter isAccepted (clients loudState)) = 16"
    "length (filter (\<lambda>c. isAccepted c \<and> type_client c = malicious) (clients loudState)) = 0"
    by (simp_all add: loudState_def countAccepted_sampleClients)
  from t2 have m2: "globalAccuracy loudState = 0.8 * globalAccuracy initialState + 0.2 * (0.95 - 0 / 16 * 0.5)"
    "backdoorSuccessRate loudState = 0.8 * backdoorSuccessRate initialState + 0.2 * 0"
    unfolding c2 by simp_all
  from sample_round loud_round c1 m1 c2 m2 show ?thesis by blast
qed

subsection \<open>Which clients are malicious\<close>

lemma below_threshold_prefix:
  fixes x :: real
  assumes "0 \<le> x" and "x \<le> real n"
  shows "map (\<lambda>i. if real i < x then a else b) [0..<n]
           = replicate (nat \<lceil>x\<rceil>) a @ replicate (n - nat \<lceil>x\<rceil>) b"
proof (rule nth_equalityI)
  have "\<lceil>x\<rceil> \<le> int n" using assms(2) by (simp add: ceiling_le_iff)
  then have le: "nat \<lceil>x\<rceil> \<le> n" by linarith
  then show "length (map (\<lambda>i. if real i < x then a else b) [0..<n])
           = length (replicate (nat \<lceil>x\<rceil>) a @ replicate (n - nat \<lceil>x\<rceil>) b)"
    by simp
  fix i assume "i < length (map (\<lambda>i. if real i < x then a else b) [0..<n])"
  then have i: "i < n" by simp
  have "real i < x \<longleftrightarrow> int i < \<lceil>x\<rceil>" by (simp add: less_ceiling_iff)
  also have "\<dots> \<longleftrightarrow> i < nat \<lceil>x\<rceil>" by (simp add: zless_nat_eq_int_zless)
  finally have iff: "real i < x \<longleftrightarrow> i < nat \<lceil>x\<rceil>" .
  show "map (\<lambda>i. if real i < x then a else b) [0..<n] ! i
          = (replicate (nat \<lceil>x\<rceil>) a @ replicate (n - nat \<lceil>x\<rceil>) b) ! i"
    using i le by (simp add: iff nth_append)
qed

lemma count_malicious:
  assumes "map type_client ncs = replicate k malicious @ replicate m benign"
  shows "length (filter (\<lambda>c. type_client c = malicious) ncs) = k"
proof -
  have "length (filter (\<lambda>c. type_client c = malicious) ncs)
      = length (filter (\<lambda>t. t = malicious) (map type_client ncs))"
    by (simp add: filter_map o_def)
  also have "\<dots> = k" unfolding assms by simp
  finally show ?thesis .
qed

lemma runRound_types:
  assumes "runRound cfg td rnd s = Some s'"
  shows "map type_client (clients s') = replicate 4 malicious @ replicate 16 benign"
    and "map id_client (clients s') = [0..<NUM_CLIENTS]"
proof -
  from assms obtain ncs p where
    nc: "newClients cfg td rnd 0 = Some (ncs, p)"
    and s': "s' = finishRound cfg td s ncs"
    by (rule runRound_SomeD)
  have c: "\<lceil>real NUM_CLIENTS * MALICIOUS_RATIO\<rceil> = 4"
    by (simp add: NUM_CLIENTS_def MALICIOUS_RATIO_def)
  have "map type_client (clients s') = map type_client ncs"
    by (simp add: s' clients_finishRound o_def)
  also have "\<dots> = map (\<lambda>i. if real i < real NUM_CLIENTS * MALICIOUS_RATIO then malicious else benign)
      [0..<NUM_CLIENTS]"
    by (rule newClients_types(1) [OF nc])
  also have "\<dots> = replicate (nat \<lceil>real NUM_CLIENTS * MALICIOUS_RATIO\<rceil>) malicious
      @ replicate (NUM_CLIENTS - nat \<lceil>real NUM_CLIENTS * MALICIOUS_RATIO\<rceil>) benign"
    by (rule below_threshold_prefix) (simp_all add: NUM_CLIENTS_def MALICIOUS_RATIO_def)
  finally show "map type_client (clients s') = replicate 4 malicious @ replicate 16 benign"
    unfolding c by (simp add: NUM_CLIENTS_def)
  have "map id_client (clients s') = map id_client ncs"
    by (simp add: s' clients_finishRound o_def)
  then show "map id_client (clients s') = [0..<NUM_CLIENTS]"
    by (simp add: newClients_types(2) [OF nc])
qed

text \<open>
  Claim C6. The client count and the malicious ratio are the constants \<open>NUM_CLIENTS = 20\<close>
  and \<open>MALICIOUS_RATIO = 0.2\<close> of the source, and a client is typed malicious when
  \<open>i < NUM_CLIENTS * MALICIOUS_RATIO\<close>. In every round, whatever the configuration, the
  random values and the previous state are, the client list has the identifiers
  \<open>0, ..., 19\<close> in order, exactly \<open>floor (20 * 0.2) = 4\<close> clients are typed malicious, they
  are the lowest-indexed clients \<open>0, ..., 3\<close>, and the remaining clients \<open>4, ..., 19\<close> are
  benign. The product \<open>20 * 0.2\<close> is 4 in binary64 arithmetic as well.
\<close>

theorem malicious_assignment:
  assumes "runRound cfg td rnd s = Some s'"
  defines "k \<equiv> nat \<lfloor>real NUM_CLIENTS * MALICIOUS_RATIO\<rfloor>"
  shows "length (clients s') = NUM_CLIENTS
       \<and> map id_client (clients s') = [0..<NUM_CLIENTS]
       \<and> length (filter (\<lambda>c. type_client c = malicious) (clients s')) = k
       \<and> map type_client (clients s') = replicate k malicious @ replicate (NUM_CLIENTS - k) benign
       \<and> (\<forall>i<NUM_CLIENTS. type_client (clients s' ! i) = malicious \<longleftrightarrow> i < k)
       \<and> (\<forall>i<NUM_CLIENTS. type_client (clients s' ! i) = benign \<longleftrightarrow> k \<le> i)
       \<and> k = 4
       \<and> mul64 (real NUM_CLIENTS) (round64 MALICIOUS_RATIO) = real NUM_CLIENTS * MALICIOUS_RATIO"
proof -
  have k: "k = 4" unfolding k_def by (simp add: NUM_CLIENTS_def MALICIOUS_RATIO_def)
  have n: "NUM_CLIENTS - k = 16" by (simp add: k NUM_CLIENTS_def)
  have ty: "map type_client (clients s') = replicate k malicious @ replicate (NUM_CLIENTS - k) benign"
    unfolding n unfolding k by (rule runRound_types(1) [OF assms(1)])
  have ids: "map id_client (clients s') = [0..<NUM_CLIENTS]"
    by (rule runRound_types(2) [OF assms(1)])
  have len: "length (clients s') = NUM_CLIENTS"
    using arg_cong [OF ids, of length] by simp
  have cnt: "length (filter (\<lambda>c. type_client c = malicious) (clients s')) = k"
    by (rule count_malicious [OF ty])
  have nth: "type_client (clients s' ! i) = (if i < k then malicious else benign)"
    if "i < NUM_CLIENTS" for i
  proof -
    have "type_client (clients s' ! i) = map type_client (clients s') ! i"
      using that len by simp
    also have "\<dots> = (if i < k then malicious else benign)"
      unfolding ty using that by (simp add: nth_append k NUM_CLIENTS_def)
    finally show ?thesis .
  qed
  have mal: "\<forall>i<NUM_CLIENTS. type_client (clients s' ! i) = malicious \<longleftrightarrow> i < k"
    by (simp add: nth)
  have ben: "\<forall>i<NUM_CLIENTS. type_client (clients s' ! i) = benign \<longleftrightarrow> k \<le> i"
    by (auto simp: nth)
  have fl: "mul64 (real NUM_CLIENTS) (round64 MALICIOUS_RATIO) = real NUM_CLIENTS * MALICIOUS_RATIO"
    unfolding malicious_threshold64 by (simp add: NUM_CLIENTS_def MALICIOUS_RATIO_def)
  from len ids cnt ty mal ben k fl show ?thesis by blast
qed

theorem malicious_assignment_witness:
  "runRound iidConfig sampleTrueGradient (constRandom (1/4)) initialState = Some sampleState
   \<and> nat \<lfloor>real NUM_CLIENTS * MALICIOUS_RATIO\<rfloor> = 4
   \<and> length (clients sampleState) = 20
   \<and> map id_client (clients sampleState) = [0..<20]
   \<and> length (filter (\<lambda>c. type_client c = malicious) (clients sampleState)) = 4
   \<and> map type_client (clients sampleState) = replicate 4 malicious @ replicate 16 benign
   \<and> type_client (clients sampleState ! 3) = malicious
   \<and> type_client (clients sampleState ! 4) = benign"
proof -
  note t = malicious_assignment [OF sample_round]
  from t have k: "nat \<lfloor>real NUM_CLIENTS * MALICIOUS_RATIO\<rfloor> = 4" by blast
  from t have "length (clients sampleState) = NUM_CLIENTS
      \<and> map id_client (clients sampleState) = [0..<NUM_CLIENTS]
      \<and> length (filter (\<lambda>c. type_client c = malicious) (clients sampleState))
          = nat \<lfloor>real NUM_CLIENTS * MALICIOUS_RATIO\<rfloor>
      \<and> map type_client (clients sampleState)
          = replicate (nat \<lfloor>real NUM_CLIENTS * MALICIOUS_RATIO\<rfloor>) malicious
            @ replicate (NUM_CLIENTS - nat \<lfloor>real NUM_CLIENTS * MALICIOUS_RATIO\<rfloor>) benign"
    by blast
  then have a: "length (clients sampleState) = 20
      \<and> map id_client (clients sampleState) = [0..<20]
      \<and> length (filter (\<lambda>c. type_client c = malicious) (clients sampleState)) = 4
      \<and> map type_client (clients sampleState) = replicate 4 malicious @ replicate 16 benign"
    unfolding k by (simp add: NUM_CLIENTS_def)
  from t have m: "\<forall>i<NUM_CLIENTS. type_client (clients sampleState ! i) = malicious
      \<longleftrightarrow> i < nat \<lfloor>real NUM_CLIENTS * MALICIOUS_RATIO\<rfloor>"
    by blast
  have "type_client (clients sampleState ! 3) = malicious"
    using m [unfolded k] by (simp add: NUM_CLIENTS_def)
  moreover from t have b: "\<forall>i<NUM_CLIENTS. type_client (clients sampleState ! i) = benign
      \<longleftrightarrow> nat \<lfloor>real NUM_CLIENTS * MALICIOUS_RATIO\<rfloor> \<le> i"
    by blast
  have "type_client (clients sampleState ! 4) = benign"
    using b [unfolded k] by (simp add: NUM_CLIENTS_def)
  ultimately show ?thesis using sample_round k a by blast
qed

subsection \<open>The fallback magnitude check\<close>

text \<open>
  Claim C7. With both mechanisms disabled a client is rejected exactly when the magnitude
  of its gradient, \<open>sqrt (\<Sum>j<D. gradient[j]\<^sup>2)\<close>, exceeds 25. With one of them enabled
  the fallback check leaves the detection flag as it is, and the verdict is that of the
  mechanisms.
\<close>

theorem fallback_magnitude_verdict:
  assumes "runRound cfg td rnd s = Some s'"
    and "c \<in> set (clients s')"
    and "length (globalFIM s) = VECTOR_DIM"
    and "length td = VECTOR_DIM"
  shows "length (gradient c) = VECTOR_DIM
       \<and> mag (gradient c) = sqrt (\<Sum>j<VECTOR_DIM. (gradient c ! j)\<^sup>2)
       \<and> (\<forall>flag. fallbackCheck cfg (gradient c) flag
             = (if \<not> useStiffnessMask cfg \<and> \<not> useLayerWeightedClustering cfg
                then mag (gradient c) > 25 \<or> flag else flag))
       \<and> (isAccepted c \<longleftrightarrow>
            (if \<not> useStiffnessMask cfg \<and> \<not> useLayerWeightedClustering cfg
             then \<not> mag (gradient c) > 25
             else \<not> fst (mechanismA cfg (globalFIM s') (gradient c) (False, 0))
                  \<and> \<not> (useLayerWeightedClustering cfg
                        \<and> weightedDist cfg (globalFIM s') td (gradient c)
                            > 500 * (1 + nonIIDLevel cfg))))"
proof -
  note cl = runRound_clients [OF assms(1,2)]
  have m: "mag (gradient c) = sqrt (\<Sum>j<VECTOR_DIM. (gradient c ! j)\<^sup>2)"
    by (simp add: mag_eq cl(1))
  have F: "fallbackCheck cfg (gradient c) flag
             = (if \<not> useStiffnessMask cfg \<and> \<not> useLayerWeightedClustering cfg
                then mag (gradient c) > 25 \<or> flag else flag)" for flag
    unfolding fallbackCheck_eq by auto
  have acc: "isAccepted c \<longleftrightarrow>
            (if \<not> useStiffnessMask cfg \<and> \<not> useLayerWeightedClustering cfg
             then \<not> mag (gradient c) > 25
             else \<not> fst (mechanismA cfg (globalFIM s') (gradient c) (False, 0))
                  \<and> \<not> (useLayerWeightedClustering cfg
                        \<and> weightedDist cfg (globalFIM s') td (gradient c)
                            > 500 * (1 + nonIIDLevel cfg)))"
    unfolding cl(3) mechanismA_eq by auto
  from cl(1) m F acc show ?thesis by blast
qed

theorem fallback_magnitude_verdict_witness:
  fixes c
  defines "c \<equiv> hd (clients undefendedState)"
  shows "runRound undefendedConfig sampleTrueGradient (constRandom (1/4)) initialState
           = Some undefendedState
       \<and> c \<in> set (clients undefendedState)
       \<and> length (globalFIM initialState) = VECTOR_DIM
       \<and> length sampleTrueGradient = VECTOR_DIM
       \<and> \<not> useStiffnessMask undefendedConfig \<and> \<not> useLayerWeightedClustering undefendedConfig
       \<and> mag (gradient c) = sqrt (\<Sum>j<VECTOR_DIM. (gradient c ! j)\<^sup>2)
       \<and> mag (gradient c) = sqrt 101.25
       \<and> isAccepted c = (\<not> mag (gradient c) > 25)
       \<and> isAccepted c
       \<and> (\<forall>flag. fallbackCheck iidConfig (gradient (hd (clients sampleState))) flag = flag)"
proof -
  have c: "c \<in> set (clients undefendedState)"
    unfolding c_def by (simp add: undefendedState_def hd_in_sampleClients)
  have off: "\<not> useStiffnessMask undefendedConfig" "\<not> useLayerWeightedClustering undefendedConfig"
    by (simp_all add: undefendedConfig_def)
  have g: "gradient c = replicate 5 (- 4.5) @ replicate 15 0" and a: "isAccepted c"
    unfolding c_def by (simp_all add: undefendedState_def hd_sampleClients)
  have mg: "mag (gradient c) = sqrt 101.25" unfolding g mag_trigger by simp
  have l: "length (globalFIM initialState) = VECTOR_DIM" by (simp add: initialState_def)
  have d: "length sampleTrueGradient = VECTOR_DIM" by (simp add: sampleTrueGradient_def)
  note t = fallback_magnitude_verdict [OF undefended_round c l d]
  from t have m: "mag (gradient c) = sqrt (\<Sum>j<VECTOR_DIM. (gradient c ! j)\<^sup>2)" by blast
  from t off have v: "isAccepted c = (\<not> mag (gradient c) > 25)" by simp
  have c': "hd (clients sampleState) \<in> set (clients sampleState)"
    by (simp add: sampleState_def hd_in_sampleClients)
  have on: "useStiffnessMask iidConfig" by (simp add: iidConfig_def defaultConfig_def)
  from fallback_magnitude_verdict [OF sample_round c' l d] on
  have n: "\<forall>flag. fallbackCheck iidConfig (gradient (hd (clients sampleState))) flag = flag"
    by simp
  from undefended_round c l d off m mg v a n show ?thesis by blast
qed

subsection \<open>The history window\<close>

text \<open>
  Claim C8. Every round leaves a history of at most 50 entries; each round appends its
  entry \<open>{round, acc, asr}\<close> and, when the history was full, drops the oldest one. After
  \<open>n\<close> rounds from the initial state the history holds the entries of the last
  \<open>min n 50\<close> rounds, in the order of the rounds: their round numbers are
  \<open>n - 49, ..., n\<close> when \<open>n\<close> exceeds 50, so the history then has exactly 50 entries in
  strictly increasing round order.
\<close>

theorem history_window:
  assumes "runRounds td ins s0 = Some ss"
  defines "n \<equiv> length ss"
  defines "final \<equiv> last (s0 # ss)"
  shows "(\<forall>s\<in>set ss. length (history s) \<le> 50)
       \<and> (\<forall>k<n. length (history ((s0 # ss) ! k)) \<le> 50 \<longrightarrow>
             history (ss ! k)
               = (if length (history ((s0 # ss) ! k)) < 50 then history ((s0 # ss) ! k)
                  else tl (history ((s0 # ss) ! k))) @ [entryOf (ss ! k)])
       \<and> (s0 = initialState \<longrightarrow>
             history final = map entryOf (sliceLast 50 ss)
           \<and> map round_st ss = [1..<Suc n]
           \<and> map round_h (history final) = [Suc (n - 50)..<Suc n]
           \<and> sorted_wrt (<) (map round_h (history final))
           \<and> length (history final) = min n 50
           \<and> (n > 50 \<longrightarrow> length (history final) = 50))"
proof (intro conjI ballI allI impI)
  fix s assume "s \<in> set ss"
  then obtain k where k: "k < length ss" and s: "s = ss ! k" by (auto simp: in_set_conv_nth)
  from runRounds_step [OF assms(1) k] obtain cfg rnd where
    "runRound cfg td rnd ((s0 # ss) ! k) = Some s" unfolding s by blast
  then show "length (history s) \<le> 50" by (rule runRound_history_length)
next
  fix k assume k: "k < n" and le: "length (history ((s0 # ss) ! k)) \<le> 50"
  from runRounds_step [OF assms(1)] k obtain cfg rnd where
    "runRound cfg td rnd ((s0 # ss) ! k) = Some (ss ! k)" unfolding n_def by blast
  from runRound_history(1) [OF this] le
  show "history (ss ! k)
          = (if length (history ((s0 # ss) ! k)) < 50 then history ((s0 # ss) ! k)
             else tl (history ((s0 # ss) ! k))) @ [entryOf (ss ! k)]"
    by (simp add: sliceLast_snoc)
next
  assume init: "s0 = initialState"
  have h: "history final = map entryOf (sliceLast 50 ss)"
    unfolding final_def using runRounds_history [OF assms(1)]
    by (simp add: init initialState_def map_sliceLast)
  then show "history final = map entryOf (sliceLast 50 ss)" .
  have rs: "map round_st ss = [1..<Suc n]"
    using runRounds_round [OF assms(1)] by (simp add: init initialState_def n_def del: upt_Suc)
  then show "map round_st ss = [1..<Suc n]" .
  have "map round_h (history final) = sliceLast 50 (map round_st ss)"
    unfolding h by (simp add: map_sliceLast o_def round_h_entryOf)
  also have "\<dots> = [Suc (n - 50)..<Suc n]"
    unfolding rs by (simp add: sliceLast_def drop_upt del: upt_Suc)
  finally show rh: "map round_h (history final) = [Suc (n - 50)..<Suc n]" .
  show "sorted_wrt (<) (map round_h (history final))" unfolding rh by (rule sorted_wrt_upt)
  show len: "length (history final) = min n 50"
    unfolding h by (simp add: length_sliceLast n_def)
  show "length (history final) = 50" if "50 < n" using that len by simp
qed

theorem history_window_witness:
  fixes ss
  defines "ss \<equiv> the (runRounds sampleTrueGradient
                        (replicate 51 (defaultConfig, constRandom (1/4))) initialState)"
  shows "runRounds sampleTrueGradient (replicate 51 (defaultConfig, constRandom (1/4))) initialState
           = Some ss
       \<and> length ss = 51
       \<and> history (last (initialState # ss)) = map entryOf (sliceLast 50 ss)
       \<and> map round_h (history (last (initialState # ss))) = [2..<52]
       \<and> length (history (last (initialState # ss))) = 50"
proof -
  have r: "runRounds sampleTrueGradient (replicate 51 (defaultConfig, constRandom (1/4))) initialState
           = Some ss"
    unfolding ss_def by (rule runRounds_sample) simp
  have n: "length ss = 51" using runRounds_length [OF r] by simp
  have e: "Suc (length ss - 50) = 2" "Suc (length ss) = 52" "min (length ss) 50 = 50"
    using n by simp_all
  from history_window [OF r] have
    "history (last (initialState # ss)) = map entryOf (sliceLast 50 ss)
     \<and> map round_h (history (last (initialState # ss))) = [Suc (length ss - 50)..<Suc (length ss)]
     \<and> length (history (last (initialState # ss))) = min (length ss) 50"
    by blast
  then have
    "history (last (initialState # ss)) = map entryOf (sliceLast 50 ss)
     \<and> map round_h (history (last (initialState # ss))) = [2..<52]
     \<and> length (history (last (initialState # ss))) = 50"
    unfolding e .
  with r n show ?thesis by blast
qed

subsection \<open>The random source and reproducibility\<close>

lemma newClients_determined:
  assumes "newClients cfg td rnd1 p1 = Some (ncs1, q1)"
    and "newClients cfg td rnd2 p2 = Some (ncs2, q2)"
    and "map gradient ncs1 = map gradient ncs2"
  shows "ncs1 = ncs2"
proof (rule nth_equalityI)
  show "length ncs1 = length ncs2"
    by (simp add: newClients_length [OF assms(1)] newClients_length [OF assms(2)])
  fix i assume "i < length ncs1"
  then have i: "i < NUM_CLIENTS" by (simp add: newClients_length [OF assms(1)])
  from newClients_nth [OF assms(1) i] obtain a b where
    "newClient cfg td rnd1 i a = Some (ncs1 ! i, b)" by blast
  note r1 = newClient_record [OF this]
  from newClients_nth [OF assms(2) i] obtain a' b' where
    "newClient cfg td rnd2 i a' = Some (ncs2 ! i, b')" by blast
  note r2 = newClient_record [OF this]
  have "gradient (ncs1 ! i) = gradient (ncs2 ! i)"
    using arg_cong [OF assms(3), of "\<lambda>gs. gs ! i"] i
    by (simp add: newClients_length [OF assms(1)] newClients_length [OF assms(2)])
  with r1 r2 show "ncs1 ! i = ncs2 ! i" by simp
qed

lemma runRound_gradients:
  assumes "runRound cfg td rnd s = Some s'"
  obtains ncs p where "newClients cfg td rnd 0 = Some (ncs, p)"
    and "s' = finishRound cfg td s ncs" and "map gradient (clients s') = map gradient ncs"
proof -
  from assms obtain ncs p where
    nc: "newClients cfg td rnd 0 = Some (ncs, p)"
    and s': "s' = finishRound cfg td s ncs"
    by (rule runRound_SomeD)
  have "map gradient (clients s') = map gradient ncs"
    by (simp add: s' clients_finishRound o_def)
  with nc s' show thesis by (rule that)
qed

lemma runRound_determined:
  assumes "runRound cfg td rnd1 s = Some s1" and "runRound cfg td rnd2 s = Some s2"
  shows "round_st s1 = round_st s2" and "globalFIM s1 = globalFIM s2"
    and "map gradient (clients s1) = map gradient (clients s2) \<Longrightarrow> s1 = s2"
proof -
  from assms(1) obtain ncs1 p1 where
    n1: "newClients cfg td rnd1 0 = Some (ncs1, p1)"
    and s1: "s1 = finishRound cfg td s ncs1" and g1: "map gradient (clients s1) = map gradient ncs1"
    by (rule runRound_gradients)
  from assms(2) obtain ncs2 p2 where
    n2: "newClients cfg td rnd2 0 = Some (ncs2, p2)"
    and s2: "s2 = finishRound cfg td s ncs2" and g2: "map gradient (clients s2) = map gradient ncs2"
    by (rule runRound_gradients)
  show "round_st s1 = round_st s2" by (simp add: s1 s2 round_finishRound)
  show "globalFIM s1 = globalFIM s2" by (simp add: s1 s2 globalFIM_finishRound)
  show "s1 = s2" if "map gradient (clients s1) = map gradient (clients s2)"
  proof -
    from that g1 g2 have "map gradient ncs1 = map gradient ncs2" by simp
    from newClients_determined [OF n1 n2 this] show ?thesis by (simp add: s1 s2)
  qed
qed

lemma runRound_first_coordinate:
  assumes "runRound cfg td rnd s = Some s'" and "randomNormal rnd 0 = Some (n1, p1)"
  shows "hd (gradient (hd (clients s')))
     = td ! 0 + (n1 * nonIIDLevel cfg * 2 + sin (0.9 * pi * 2) * nonIIDLevel cfg)
       - (1.5 - attackStealth cfg) * 5"
proof -
  from assms(1) obtain ncs p where
    nc: "newClients cfg td rnd 0 = Some (ncs, p)"
    and s': "s' = finishRound cfg td s ncs"
    by (rule runRound_SomeD)
  have u: "[0..<NUM_CLIENTS] = 0 # [1..<NUM_CLIENTS]" and v: "[0..<VECTOR_DIM] = 0 # [1..<VECTOR_DIM]"
    by (simp_all add: NUM_CLIENTS_def VECTOR_DIM_def upt_conv_Cons)
  from nc have "arrayFrom (newClient cfg td rnd) (0 # [1..<NUM_CLIENTS]) 0
      = Some (ncs, p)"
    by (simp only: newClients_def u)
  from arrayFrom_hd [OF this] obtain q where
    c0: "newClient cfg td rnd 0 0 = Some (hd ncs, q)" by blast
  have mal: "real 0 < real NUM_CLIENTS * MALICIOUS_RATIO"
    by (simp add: NUM_CLIENTS_def MALICIOUS_RATIO_def)
  from c0 mal obtain g where
    "generateGradient malicious 0.9 (nonIIDLevel cfg) (1.5 - attackStealth cfg) td rnd 0 = Some (g, q)"
    and "hd ncs = \<lparr> id_client = 0, type_client = malicious, gradient = g,
                     dataDistribution = 0.9, stiffnessViolationScore = 0, isAccepted = True \<rparr>"
    by (auto simp: newClient_def Let_def split: option.splits)
  then have "generateGradient malicious 0.9 (nonIIDLevel cfg) (1.5 - attackStealth cfg) td rnd 0
      = Some (gradient (hd ncs), q)"
    by simp
  then have "arrayFrom (gradientCoord malicious 0.9 (nonIIDLevel cfg) (1.5 - attackStealth cfg) td rnd)
      (0 # [1..<VECTOR_DIM]) 0 = Some (gradient (hd ncs), q)"
    by (simp only: generateGradient_def v)
  from arrayFrom_hd [OF this] obtain q' where
    "gradientCoord malicious 0.9 (nonIIDLevel cfg) (1.5 - attackStealth cfg) td rnd 0 0
       = Some (hd (gradient (hd ncs)), q')" by blast
  then have g: "hd (gradient (hd ncs))
     = td ! 0 + (n1 * nonIIDLevel cfg * 2 + sin (0.9 * pi * 2) * nonIIDLevel cfg)
       - (1.5 - attackStealth cfg) * 5"
    by (simp add: gradientCoord_def assms(2) Let_def)
  have "ncs \<noteq> []" using newClients_length [OF nc] by (auto simp: NUM_CLIENTS_def)
  then have "gradient (hd (clients s')) = gradient (hd ncs)"
    by (simp add: s' clients_finishRound hd_map)
  with g show ?thesis by simp
qed

lemma runRounds_importance:
  assumes "runRounds td ins1 s = Some ss1" and "runRounds td' ins2 s' = Some ss2"
    and "map fst ins1 = map fst ins2"
    and "round_st s = round_st s'" and "globalFIM s = globalFIM s'"
  shows "map round_st ss1 = map round_st ss2 \<and> map globalFIM ss1 = map globalFIM ss2"
  using assms
proof (induction ins1 arbitrary: ins2 s s' ss1 ss2)
  case Nil
  then show ?case by simp
next
  case (Cons x ins1)
  obtain cfg rnd1 where x: "x = (cfg, rnd1)" by (cases x)
  from Cons.prems(3) x obtain rnd2 rest2 where ins2: "ins2 = (cfg, rnd2) # rest2"
    and rest: "map fst ins1 = map fst rest2"
    by (cases ins2) auto
  from Cons.prems(1) obtain s1 ss1' where
    r1: "runRound cfg td rnd1 s = Some s1" and rs1: "runRounds td ins1 s1 = Some ss1'"
    and ss1: "ss1 = s1 # ss1'"
    unfolding x by (rule runRounds_ConsD)
  from Cons.prems(2) obtain s2 ss2' where
    r2: "runRound cfg td' rnd2 s' = Some s2" and rs2: "runRounds td' rest2 s2 = Some ss2'"
    and ss2: "ss2 = s2 # ss2'"
    unfolding ins2 by (rule runRounds_ConsD)
  have rd: "round_st s1 = round_st s2"
    using runRound_history(2) [OF r1] runRound_history(2) [OF r2] Cons.prems(4) by simp
  have fm: "globalFIM s1 = globalFIM s2"
    using runRound_globalFIM [OF r1] runRound_globalFIM [OF r2] Cons.prems(5) by simp
  from Cons.IH [OF rs1 rs2 rest rd fm] rd fm show ?case by (simp add: ss1 ss2)
qed

lemma runRounds_determined:
  assumes "runRounds td ins1 s = Some ss1" and "runRounds td ins2 s = Some ss2"
    and "map fst ins1 = map fst ins2"
    and "map (\<lambda>s. map gradient (clients s)) ss1 = map (\<lambda>s. map gradient (clients s)) ss2"
  shows "ss1 = ss2"
  using assms
proof (induction ins1 arbitrary: ins2 s ss1 ss2)
  case Nil
  then show ?case by simp
next
  case (Cons x ins1)
  obtain cfg rnd1 where x: "x = (cfg, rnd1)" by (cases x)
  from Cons.prems(3) x obtain rnd2 rest2 where ins2: "ins2 = (cfg, rnd2) # rest2"
    and rest: "map fst ins1 = map fst rest2"
    by (cases ins2) auto
  from Cons.prems(1) obtain s1 ss1' where
    r1: "runRound cfg td rnd1 s = Some s1" and rs1: "runRounds td ins1 s1 = Some ss1'"
    and ss1: "ss1 = s1 # ss1'"
    unfolding x by (rule runRounds_ConsD)
  from Cons.prems(2) obtain s2 ss2' where
    r2: "runRound cfg td rnd2 s = Some s2" and rs2: "runRounds td rest2 s2 = Some ss2'"
    and ss2: "ss2 = s2 # ss2'"
    unfolding ins2 by (rule runRounds_ConsD)
  from Cons.prems(4) have g: "map gradient (clients s1) = map gradient (clients s2)"
    and gs: "map (\<lambda>s. map gradient (clients s)) ss1' = map (\<lambda>s. map gradient (clients s)) ss2'"
    by (simp_all add: ss1 ss2)
  have eq: "s1 = s2" by (rule runRound_determined(3) [OF r1 r2 g])
  from Cons.IH [OF rs1 rs2 [folded eq] rest gs] eq show ?case by (simp add: ss1 ss2)
qed

text \<open>
  Claim C9, as the specification states it: runs with an identical seed and an identical
  configuration produce identical state sequences, and the implementation exposes a
  seedable random source. The source draws from \<^verbatim>\<open>Math.random()\<close> and has no seed: nothing
  the engine is given fixes the values drawn. From the same state, with the same
  configuration and true direction, the round that draws 1/4 at every call and the round
  that draws 1/2 at every call end in different states.
\<close>

theorem unseeded_rounds_differ_counterexample:
  "runRound defaultConfig sampleTrueGradient (constRandom (1/4)) initialState
     \<noteq> runRound defaultConfig sampleTrueGradient (constRandom (1/2)) initialState"
proof
  assume eq: "runRound defaultConfig sampleTrueGradient (constRandom (1/4)) initialState
     = runRound defaultConfig sampleTrueGradient (constRandom (1/2)) initialState"
  define s' where
    "s' = the (runRound defaultConfig sampleTrueGradient (constRandom (1/4)) initialState)"
  have a: "runRound defaultConfig sampleTrueGradient (constRandom (1/4)) initialState = Some s'"
    unfolding s'_def by (rule runRound_sample) simp
  with eq have
    b: "runRound defaultConfig sampleTrueGradient (constRandom (1/2)) initialState = Some s'"
    by simp
  have na: "randomNormal (constRandom (1/4)) 0 = Some (0, Suc (Suc 0))"
    using randomNormal_const [of "1/4" 0] by simp
  have nb: "randomNormal (constRandom (1/2)) 0 = Some (- sqrt (2 * ln 2), Suc (Suc 0))"
    using randomNormal_const [of "1/2" 0] by (simp add: ln_div)
  have "ln (2::real) > 0" by simp
  then have pos: "sqrt (2 * ln (2::real)) > 0" by simp
  from runRound_first_coordinate [OF a na] runRound_first_coordinate [OF b nb]
  have "sqrt (2 * ln (2::real)) * nonIIDLevel defaultConfig * 2 = 0" by simp
  with pos show False by (simp add: defaultConfig_def)
qed

text \<open>
  Claim C9, amended. The engine has no seed; the values that \<^verbatim>\<open>Math.random()\<close> returns are
  an input of every round. Two runs from the same state with the same true direction and
  the same configuration in every round produce the same round numbers and the same
  importance vectors whatever the random values are, and produce the same sequence of
  states whenever the client gradients generated from the random values agree, in
  particular whenever the random source returns the same values in both runs.
\<close>

theorem rounds_determined_by_draws:
  assumes "runRounds td ins1 s = Some ss1" and "runRounds td ins2 s = Some ss2"
    and "map fst ins1 = map fst ins2"
  shows "map round_st ss1 = map round_st ss2
       \<and> map globalFIM ss1 = map globalFIM ss2
       \<and> (map (\<lambda>s. map gradient (clients s)) ss1 = map (\<lambda>s. map gradient (clients s)) ss2
            \<longrightarrow> ss1 = ss2)
       \<and> (map snd ins1 = map snd ins2 \<longrightarrow> ss1 = ss2)"
proof -
  have same: "ss1 = ss2" if "map snd ins1 = map snd ins2"
  proof -
    from that assms(3) have "ins1 = ins2" by (simp add: prod_eq_iff list_eq_iff_nth_eq)
    with assms(1,2) show ?thesis by simp
  qed
  from runRounds_importance [OF assms(1,2,3)] runRounds_determined [OF assms(1,2,3)] same
  show ?thesis by blast
qed

theorem rounds_determined_by_draws_witness:
  fixes ss1 ss2
  defines "ss1 \<equiv> the (runRounds sampleTrueGradient
                         (replicate 2 (defaultConfig, constRandom (1/4))) initialState)"
  defines "ss2 \<equiv> the (runRounds sampleTrueGradient
                         (replicate 2 (defaultConfig, constRandom (1/2))) initialState)"
  shows "runRounds sampleTrueGradient (replicate 2 (defaultConfig, constRandom (1/4))) initialState
           = Some ss1
       \<and> runRounds sampleTrueGradient (replicate 2 (defaultConfig, constRandom (1/2))) initialState
           = Some ss2
       \<and> map fst (replicate 2 (defaultConfig, constRandom (1/4)))
           = map fst (replicate 2 (defaultConfig, constRandom (1/2)))
       \<and> map round_st ss1 = map round_st ss2
       \<and> map globalFIM ss1 = map globalFIM ss2"
proof -
  have r1: "runRounds sampleTrueGradient (replicate 2 (defaultConfig, constRandom (1/4))) initialState
           = Some ss1"
    unfolding ss1_def by (rule runRounds_sample) simp
  have r2: "runRounds sampleTrueGradient (replicate 2 (defaultConfig, constRandom (1/2))) initialState
           = Some ss2"
    unfolding ss2_def by (rule runRounds_sample) simp
  have c: "map fst (replicate 2 (defaultConfig, constRandom (1/4)))
           = map fst (replicate 2 (defaultConfig, constRandom (1/2)))"
    by simp
  from rounds_determined_by_draws [OF r1 r2 c] r1 r2 c show ?thesis by blast
qed

subsection \<open>The ranges of the accuracy and the attack success rate\<close>

text \<open>
  Claim C10, as the specification states it: in every reachable state the attack success
  rate lies in \<open>[0, 0.9)\<close>. In the binary64 arithmetic of the program the update
  \<open>prev * 0.8 + 0.9 * 0.2\<close>, started at 0, gives the binary64 number 0.9 itself after
  158 rounds in which more than a tenth of the accepted clients are malicious, and
  \<open>0.9 + 2 ^ - 52\<close> (printed 0.9000000000000002) two rounds later. Every undefended round
  with the draws 1/4 is such a round: all 20 clients, the 4 malicious ones among them, are
  accepted (lemma \<open>undefended_run_counts\<close>).
\<close>

theorem asr_reaches_bound_counterexample:
  "runRound undefendedConfig sampleTrueGradient (constRandom (1/4)) initialState
     = Some undefendedState
   \<and> countAccepted (clients undefendedState) = (20, 4)
   \<and> reachable64 (undefendedMetrics64 158)
   \<and> snd (undefendedMetrics64 158) = round64 0.9
   \<and> snd (undefendedMetrics64 158) = (8106479329266893 / 9007199254740992)
   \<and> \<not> snd (undefendedMetrics64 158) < round64 0.9
   \<and> \<not> snd (undefendedMetrics64 158) < 0.9
   \<and> reachable64 (undefendedMetrics64 160)
   \<and> snd (undefendedMetrics64 160) = round64 0.9 + 1 / 2 ^ 52
   \<and> snd (undefendedMetrics64 160) = (8106479329266895 / 9007199254740992)
   \<and> 0.9 < snd (undefendedMetrics64 160)"
proof -
  have c: "countAccepted (clients undefendedState) = (20, 4)"
    by (rule undefended_counts [OF undefended_round])
  have a: "snd (undefendedMetrics64 158) = round64 0.9"
    unfolding asr_round_158 lit_09 ..
  have b: "snd (undefendedMetrics64 160) = round64 0.9 + 1 / 2 ^ 52"
    unfolding asr_round_160 lit_09 by simp
  have n1: "\<not> snd (undefendedMetrics64 158) < round64 0.9" unfolding a by simp
  have n2: "\<not> snd (undefendedMetrics64 158) < 0.9" unfolding asr_round_158 by simp
  have n3: "0.9 < snd (undefendedMetrics64 160)" unfolding asr_round_160 by simp
  from undefended_round c reachable64_undefended [of 158] a asr_round_158 n1 n2
    reachable64_undefended [of 160] b asr_round_160 n3
  show ?thesis by blast
qed

text \<open>
  Claim C10, amended. In every reachable state the accuracy lies in \<open>[0.1, 0.95)\<close> and the
  attack success rate lies in \<open>[0, 0.9 + 2 ^ - 52]\<close>, in the binary64 arithmetic of the
  program: the accuracy is at least the binary64 number 0.1 and below the binary64 number
  0.95, and the attack success rate, which does reach 0.9, never exceeds
  \<open>0.9 + 2 ^ - 52\<close>. In exact real arithmetic the attack success rate stays strictly below
  0.9, each update being the convex combination \<open>0.8 * previous + 0.2 * target\<close> with a
  target of at most 0.9.
\<close>

theorem metrics_bounds:
  "(reachable64 (acc, asr) \<longrightarrow>
      round64 0.1 \<le> acc \<and> acc < round64 0.95 \<and> 0.1 \<le> acc \<and> acc < 0.95
      \<and> 0 \<le> asr \<and> asr \<le> round64 0.9 + 1 / 2 ^ 52)
   \<and> (reachable td s \<longrightarrow>
      0.1 \<le> globalAccuracy s \<and> globalAccuracy s < 0.95
      \<and> 0 \<le> backdoorSuccessRate s \<and> backdoorSuccessRate s < 0.9)"
proof (intro conjI impI)
  assume "reachable td s"
  from reachable_metrics [OF this]
  show "0.1 \<le> globalAccuracy s" "globalAccuracy s < 0.95"
    "0 \<le> backdoorSuccessRate s" "backdoorSuccessRate s < 0.9"
    by blast+
next
  assume "reachable64 (acc, asr)"
  from reachable64_bounds [OF this] have
    b: "(3602879701896397 / 36028797018963968) \<le> acc" "acc \<le> (2139209823000985 / 2251799813685248)" "0 \<le> asr" "asr \<le> (8106479329266895 / 9007199254740992)"
    by simp_all
  from b(1) show "round64 0.1 \<le> acc" unfolding lit_01 .
  from b(2) show "acc < round64 0.95" unfolding lit_095 by simp
  from b(1) show "0.1 \<le> acc" by simp
  from b(2) show "acc < 0.95" by simp
  from b(3) show "0 \<le> asr" .
  from b(4) show "asr \<le> round64 0.9 + 1 / 2 ^ 52" unfolding lit_09 by simp
qed

theorem metrics_bounds_witness:
  "reachable64 (fst (undefendedMetrics64 160), snd (undefendedMetrics64 160))
   \<and> round64 0.1 \<le> fst (undefendedMetrics64 160)
   \<and> fst (undefendedMetrics64 160) < round64 0.95
   \<and> 0 \<le> snd (undefendedMetrics64 160)
   \<and> snd (undefendedMetrics64 160) = (8106479329266895 / 9007199254740992)
   \<and> snd (undefendedMetrics64 160) \<le> round64 0.9 + 1 / 2 ^ 52
   \<and> reachable sampleTrueGradient sampleState
   \<and> globalAccuracy sampleState = 0.25 \<and> backdoorSuccessRate sampleState = 0.18
   \<and> 0.1 \<le> globalAccuracy sampleState \<and> globalAccuracy sampleState < 0.95
   \<and> 0 \<le> backdoorSuccessRate sampleState \<and> backdoorSuccessRate sampleState < 0.9"
proof -
  have r64: "reachable64 (fst (undefendedMetrics64 160), snd (undefendedMetrics64 160))"
    using reachable64_undefended [of 160] by simp
  have r: "reachable sampleTrueGradient sampleState"
    by (rule reach_round [OF reach_init sample_round])
  have v: "globalAccuracy sampleState = 0.25" "backdoorSuccessRate sampleState = 0.18"
    by (simp_all add: sampleState_def)
  note t = metrics_bounds [of "fst (undefendedMetrics64 160)" "snd (undefendedMetrics64 160)"
      sampleTrueGradient sampleState]
  from t r64 have a: "round64 0.1 \<le> fst (undefendedMetrics64 160)
      \<and> fst (undefendedMetrics64 160) < round64 0.95
      \<and> 0 \<le> snd (undefendedMetrics64 160)
      \<and> snd (undefendedMetrics64 160) \<le> round64 0.9 + 1 / 2 ^ 52"
    by blast
  from t r have b: "0.1 \<le> globalAccuracy sampleState \<and> globalAccuracy sampleState < 0.95
      \<and> 0 \<le> backdoorSuccessRate sampleState \<and> backdoorSuccessRate sampleState < 0.9"
    by blast
  from r64 a asr_round_160 r v b show ?thesis by blast
qed

end
